theory Spec2Isabelle
  imports Complex_Main
begin

section \<open>Python exceptions\<close>

text \<open>
  The exceptions that the modelled code can raise. \<open>TypeError\<close>, \<open>ValueError\<close> and
  \<open>NotImplementedError\<close> are raised by \<open>InterpolateBadChannels.check_inputs\<close>;
  \<open>ValueError\<close> is also what numpy raises for operands whose shapes do not fit and for an
  assignment into a read-only array; \<open>IndexError\<close> is numpy's out-of-bounds index.
  \<open>DanglingReference\<close> is not a Python exception: the model addresses arrays by their
  position in a store, and a lookup at a position past the end of the store answers with
  it, so that no list of the model is ever read out of range. Python references always
  point to live objects, and every theorem below is stated for stores in which they do.
  \<open>NameError\<close> and \<open>CycleError\<close> are the failures of the extension engine in the
  specification: an extension name that is not registered, and a cycle among the
  declared dependencies.
\<close>

datatype error =
  TypeError | ValueError | NotImplementedError | IndexError | DanglingReference
| NameError | CycleError

section \<open>numpy arrays\<close>

text \<open>
  The element type of an array: floating point (idealised as real numbers, so that
  rounding is left out), or a signed integer of a number of bits, such as \<open>int16\<close>.
  Storing a float into an integer array casts it as C casts a double: the fraction is
  dropped (towards zero), and a value out of the range of the type wraps around.
\<close>

datatype dtype = FloatType | IntType nat

definition wrap_signed :: "nat \<Rightarrow> int \<Rightarrow> int" where
  "wrap_signed w i = (i + 2 ^ (w - 1)) mod 2 ^ w - 2 ^ (w - 1)"

definition cast_to :: "dtype \<Rightarrow> real \<Rightarrow> real" where
  "cast_to dt x =
     (case dt of
        FloatType \<Rightarrow> x
      | IntType w \<Rightarrow> of_int (wrap_signed w (if 0 \<le> x then \<lfloor>x\<rfloor> else \<lceil>x\<rceil>)))"

text \<open>
  A two-dimensional array of shape \<open>(length (arows a), ncols a)\<close> with its element type;
  the entries of an integer array are whole numbers. The number of columns is kept
  apart from the rows, since an array with no rows still has a shape.
\<close>

record array2 =
  dtype :: dtype
  ncols :: nat
  arows :: "real list list"

definition shape :: "array2 \<Rightarrow> nat \<times> nat" where
  "shape a = (length (arows a), ncols a)"

text \<open>Every row of a numpy array has as many entries as the array has columns.\<close>

definition rectangular :: "array2 \<Rightarrow> bool" where
  "rectangular a = list_all (\<lambda>r. length r = ncols a) (arows a)"

definition column :: "array2 \<Rightarrow> nat \<Rightarrow> real list" where
  "column a j = map (\<lambda>r. r ! j) (arows a)"

text \<open>
  A one-dimensional integer array object, such as the bad-channel index array that the
  caller hands to the interpolation stage. numpy keeps the elements in a block of
  memory, and an array object is a window onto a block with a \<open>flags.writeable\<close> bit of
  its own: \<open>idx_buf\<close> is the position of the block in the store, \<open>idx_offset\<close> and
  \<open>idx_length\<close> are the window, and \<open>idx_base\<close> is \<open>None\<close> for an array that owns its block
  and the position of the owning array object for a view of it (\<open>b[lo:hi]\<close>, \<open>b.view()\<close>).
  Array objects on the same block share its elements: what is written through one of
  them is read through all of them, whatever their flags.
\<close>

record index_array =
  idx_buf :: nat
  idx_offset :: nat
  idx_length :: nat
  idx_writeable :: bool
  idx_base :: "nat option"

text \<open>
  numpy's reading of an integer index into an axis of length \<open>n\<close>: \<open>0 \<le> i < n\<close> counts
  from the front, \<open>-n \<le> i < 0\<close> from the back, anything else is out of bounds.
\<close>

definition norm_index :: "nat \<Rightarrow> int \<Rightarrow> nat option" where
  "norm_index n i =
     (if 0 \<le> i \<and> i < int n then Some (nat i)
      else if - int n \<le> i \<and> i < 0 then Some (nat (i + int n))
      else None)"

fun norm_indices :: "nat \<Rightarrow> int list \<Rightarrow> nat list option" where
  "norm_indices n [] = Some []"
| "norm_indices n (i # is) =
     (case norm_index n i of
        None \<Rightarrow> None
      | Some j \<Rightarrow> map_option ((#) j) (norm_indices n is))"

definition dot :: "real list \<Rightarrow> real list \<Rightarrow> real" where
  "dot r c = sum_list (map2 (*) r c)"

text \<open>
  \<open>t @ w\<close> for two-dimensional operands, the right one a float array: a \<open>ValueError\<close>
  unless the number of columns of \<open>t\<close> is the number of rows of \<open>w\<close>; the product is a
  float array.
\<close>

definition matmul :: "array2 \<Rightarrow> array2 \<Rightarrow> error + array2" where
  "matmul t w =
     (if ncols t \<noteq> length (arows w) then Inl ValueError
      else Inr \<lparr>dtype = FloatType, ncols = ncols w,
                arows = map (\<lambda>r. map (\<lambda>j. dot r (column w j)) [0..<ncols w]) (arows t)\<rparr>)"

text \<open>
  One row of \<open>t[:, js] = p\<close>: the entries of the value row are stored one after the
  other, so that for a repeated index the last one stays.
\<close>

definition assign_row :: "nat list \<Rightarrow> real list \<Rightarrow> real list \<Rightarrow> real list" where
  "assign_row js p r = fold (\<lambda>(j, v) acc. acc[j := v]) (zip js p) r"

text \<open>numpy broadcasting of an axis of length one to length \<open>k\<close>.\<close>

definition broadcast :: "nat \<Rightarrow> 'a list \<Rightarrow> 'a list" where
  "broadcast k xs = (if length xs = k then xs else replicate k (hd xs))"

text \<open>
  \<open>t[:, idx] = p\<close> on values: the value \<open>p\<close> must broadcast to the shape
  \<open>(rows of t, length idx)\<close> (\<open>ValueError\<close> otherwise), and every index must be in
  bounds for the columns of \<open>t\<close> (\<open>IndexError\<close> otherwise). The array \<open>t\<close> keeps its
  element type: every value is cast to it as it is stored.
\<close>

definition setitem_columns :: "array2 \<Rightarrow> int list \<Rightarrow> array2 \<Rightarrow> error + array2" where
  "setitem_columns t idx p =
     (if (ncols p \<noteq> length idx \<and> ncols p \<noteq> 1)
         \<or> (length (arows p) \<noteq> length (arows t) \<and> length (arows p) \<noteq> 1)
      then Inl ValueError
      else case norm_indices (ncols t) idx of
             None \<Rightarrow> Inl IndexError
           | Some js \<Rightarrow>
               Inr (t\<lparr>arows :=
                      map2 (\<lambda>r pr. assign_row js
                                     (map (cast_to (dtype t)) (broadcast (length js) pr)) r)
                        (arows t) (broadcast (length (arows t)) (arows p))\<rparr>))"

text \<open>\<open>t[:, idx]\<close> with an integer index list: a new array of the selected columns.\<close>

definition take_columns :: "array2 \<Rightarrow> int list \<Rightarrow> error + array2" where
  "take_columns t idx =
     (case norm_indices (ncols t) idx of
        None \<Rightarrow> Inl IndexError
      | Some js \<Rightarrow>
          Inr \<lparr>dtype = dtype t, ncols = length js,
               arows = map (\<lambda>r. map (\<lambda>j. r ! j) js) (arows t)\<rparr>)"

section \<open>The store of array objects\<close>

text \<open>
  Arrays are objects that several holders may share, so they live in a store and are
  named by their position in it. A \<open>View a lo hi\<close> is a numpy array object that shows the
  rows \<open>lo..<hi\<close> of the buffer at position \<open>a\<close> (the result of the slice \<open>buf[lo:hi]\<close>): it
  shares the buffer's memory, and a write through it is a write to the buffer.
\<close>

record store =
  trace_bufs :: "array2 list"
  index_bufs :: "int list list"
  index_arrs :: "index_array list"

text \<open>The elements that an index array object shows: its window of its block.\<close>

definition index_data :: "store \<Rightarrow> index_array \<Rightarrow> int list" where
  "index_data st arr =
     take (idx_length arr) (drop (idx_offset arr) (index_bufs st ! idx_buf arr))"

datatype aref = View nat nat nat

fun deref :: "store \<Rightarrow> aref \<Rightarrow> array2" where
  "deref st (View a lo hi) =
     (if a < length (trace_bufs st)
      then \<lparr>dtype = dtype (trace_bufs st ! a), ncols = ncols (trace_bufs st ! a),
            arows = drop lo (take hi (arows (trace_bufs st ! a)))\<rparr>
      else \<lparr>dtype = FloatType, ncols = 0, arows = []\<rparr>)"

text \<open>
  \<open>traces.copy()\<close>: a new buffer of the same element type holding what the view shows,
  and a view of all of it.
\<close>

definition np_copy :: "aref \<Rightarrow> store \<Rightarrow> aref \<times> store" where
  "np_copy v st =
     (let t = deref st v
      in (View (length (trace_bufs st)) 0 (length (arows t)),
          st\<lparr>trace_bufs := trace_bufs st @ [t]\<rparr>))"

text \<open>
  \<open>v[:, idx] = p\<close> through a view: the rows that the view shows are replaced in the
  buffer it shares.
\<close>

fun store_setitem_columns :: "aref \<Rightarrow> int list \<Rightarrow> array2 \<Rightarrow> store \<Rightarrow> error + store" where
  "store_setitem_columns (View a lo hi) idx p st =
     (if length (trace_bufs st) \<le> a then Inl DanglingReference
      else case setitem_columns (deref st (View a lo hi)) idx p of
             Inl err \<Rightarrow> Inl err
           | Inr t' \<Rightarrow>
               (let b = trace_bufs st ! a;
                    rs = take lo (arows b) @ arows t' @ drop (lo + length (arows t')) (arows b)
                in Inr (st\<lparr>trace_bufs := (trace_bufs st)[a := b\<lparr>arows := rs\<rparr>]\<rparr>)))"

section \<open>Recording segments\<close>

text \<open>
  The channel selection of a pull: \<open>slice(None)\<close> (all channels, the default) or a list of
  channel indices.
\<close>

datatype channel_selection = AllChannels | Channels "int list"

text \<open>
  Modelled from the spec: the root of a chain of segments is an I/O adapter, which is not
  among the sources; the specification asks of it only that it answers \<open>get_traces\<close>.
  \<open>NumpySegment a\<close> is the in-memory one: it owns the buffer at position \<open>a\<close> and answers
  with the view \<open>buf[start:end]\<close> of it, or with a new array of the selected columns. It
  is the root that shares the most with its callers. \<open>ReaderSegment read\<close> is any other
  adapter: it reads its answer from outside the store (a file), so its answer is a
  function \<open>read\<close> of the arguments, returned in a new array, or an exception.

  \<open>InterpolateBadChannelsSegment parent b w\<close>, from the sources, holds its parent, the
  position \<open>b\<close> of the bad-channel index array in the store (the object is the caller's,
  held by reference) and the weight matrix \<open>w\<close>.
\<close>

datatype segment =
  NumpySegment nat
| ReaderSegment "nat \<Rightarrow> nat \<Rightarrow> channel_selection \<Rightarrow> error + array2"
| InterpolateBadChannelsSegment segment nat array2

text \<open>
  What \<open>self._bad_channel_indexes\<close> holds when it is read: the elements that the array
  object at position \<open>b\<close> shows at that moment.
\<close>

definition bad_channel_data :: "store \<Rightarrow> nat \<Rightarrow> error + int list" where
  "bad_channel_data st b =
     (if b < length (index_arrs st) \<and> idx_buf (index_arrs st ! b) < length (index_bufs st)
      then Inr (index_data st (index_arrs st ! b))
      else Inl DanglingReference)"

text \<open>
  \<open>InterpolateBadChannelsSegment.get_traces\<close> (third equation): the parent is pulled
  with \<open>slice(None)\<close>, its answer is copied, the product \<open>traces @ weights\<close> is computed
  and stored into the columns \<open>bad_channel_indexes\<close> of the copy, and the copy is
  returned. The argument \<open>channel_indices\<close> is not used. The first equation is the
  in-memory root: \<open>traces = buf[start:end]\<close>, then \<open>traces[:, channel_indices]\<close>; the
  second is a root that reads from outside the store.
\<close>

fun get_traces :: "segment \<Rightarrow> nat \<Rightarrow> nat \<Rightarrow> channel_selection \<Rightarrow> store \<Rightarrow> (error + aref) \<times> store" where
  "get_traces (NumpySegment a) start_frame end_frame channel_indices st =
     (if length (trace_bufs st) \<le> a then (Inl DanglingReference, st)
      else case channel_indices of
             AllChannels \<Rightarrow> (Inr (View a start_frame end_frame), st)
           | Channels idx \<Rightarrow>
               (case take_columns (deref st (View a start_frame end_frame)) idx of
                  Inl err \<Rightarrow> (Inl err, st)
                | Inr t \<Rightarrow>
                    (Inr (View (length (trace_bufs st)) 0 (length (arows t))),
                     st\<lparr>trace_bufs := trace_bufs st @ [t]\<rparr>)))"
| "get_traces (ReaderSegment read) start_frame end_frame channel_indices st =
     (case read start_frame end_frame channel_indices of
        Inl err \<Rightarrow> (Inl err, st)
      | Inr t \<Rightarrow>
          (Inr (View (length (trace_bufs st)) 0 (length (arows t))),
           st\<lparr>trace_bufs := trace_bufs st @ [t]\<rparr>))"
| "get_traces (InterpolateBadChannelsSegment parent b w) start_frame end_frame channel_indices st =
     (case get_traces parent start_frame end_frame AllChannels st of
        (Inl err, st1) \<Rightarrow> (Inl err, st1)
      | (Inr parent_traces, st1) \<Rightarrow>
          (case np_copy parent_traces st1 of
             (traces, st2) \<Rightarrow>
               (case matmul (deref st2 traces) w of
                  Inl err \<Rightarrow> (Inl err, st2)
                | Inr product \<Rightarrow>
                    (case bad_channel_data st2 b of
                       Inl err \<Rightarrow> (Inl err, st2)
                     | Inr idx \<Rightarrow>
                         (case store_setitem_columns traces idx product st2 of
                            Inl err \<Rightarrow> (Inl err, st2)
                          | Inr st3 \<Rightarrow> (Inr traces, st3))))))"

text \<open>What a pull shows to its caller: the exception, or the values of the returned array.\<close>

definition pull :: "segment \<Rightarrow> nat \<Rightarrow> nat \<Rightarrow> channel_selection \<Rightarrow> store \<Rightarrow> error + array2" where
  "pull seg start_frame end_frame channel_indices st =
     (case get_traces seg start_frame end_frame channel_indices st of
        (Inl err, st') \<Rightarrow> Inl err
      | (Inr v, st') \<Rightarrow> Inr (deref st' v))"

text \<open>
  The references of a chain point into the store, and what a reader returns is a numpy
  array: its rows have one length.
\<close>

fun wf_segment :: "store \<Rightarrow> segment \<Rightarrow> bool" where
  "wf_segment st (NumpySegment a) = (a < length (trace_bufs st))"
| "wf_segment st (ReaderSegment read) = (\<forall>s e cs t. read s e cs = Inr t \<longrightarrow> rectangular t)"
| "wf_segment st (InterpolateBadChannelsSegment parent b w) =
     (wf_segment st parent \<and> b < length (index_arrs st))"

text \<open>Every buffer of the store is a numpy array: its rows have one length.\<close>

definition wf_store :: "store \<Rightarrow> bool" where
  "wf_store st = list_all rectangular (trace_bufs st)"

section \<open>The interpolation stage\<close>

text \<open>
  A probe: the unit of its coordinates and the contact positions, one row per channel
  with the x coordinate in column 0 and the y coordinate in column 1.
\<close>

record probe =
  si_units :: string
  contact_positions :: array2

text \<open>
  What the constructor reads of the parent recording: the attached probe (the property
  \<open>contact_vector\<close> is \<open>None\<close> when there is none) and the list of its segments.
\<close>

record recording =
  rec_probe :: "probe option"
  recording_segments :: "segment list"

text \<open>
  The values a caller may pass as \<open>bad_channel_indexes\<close>: a numpy array (an object of the
  store, named by its position), or something else, such as a list or a number.
\<close>

datatype pyobj = NdArray nat | PyList "int list" | PyInt int

text \<open>
  A float that may be \<open>nan\<close>. \<open>scipy.stats.mode\<close> of an array with no elements has no
  mode and answers with a degenerate value (\<open>nan\<close>, or an empty array in earlier
  versions), not with an exception.
\<close>

datatype pyfloat = Float real | NaN

text \<open>
  \<open>check_inputs\<close>: the three checks in the order of the source. Where the source returns
  nothing, the model returns what the constructor goes on to read: the position of the
  index array and the probe.
\<close>

definition check_inputs :: "recording \<Rightarrow> pyobj \<Rightarrow> error + (nat \<times> probe)" where
  "check_inputs rec bad_channel_indexes =
     (case bad_channel_indexes of
        NdArray a \<Rightarrow>
          (case rec_probe rec of
             None \<Rightarrow> Inl ValueError
           | Some pr \<Rightarrow>
               if si_units pr \<noteq> ''um'' then Inl NotImplementedError else Inr (a, pr))
      | PyList xs \<Rightarrow> Inl TypeError
      | PyInt x \<Rightarrow> Inl TypeError)"

text \<open>\<open>np.unique\<close>: the sorted values, each once.\<close>

definition np_unique :: "real list \<Rightarrow> real list" where
  "np_unique xs = remdups_adj (sort xs)"

text \<open>\<open>np.diff\<close>: \<open>out[i] = a[i + 1] - a[i]\<close>.\<close>

definition np_diff :: "real list \<Rightarrow> real list" where
  "np_diff xs = map2 (\<lambda>a b. b - a) xs (tl xs)"

text \<open>\<open>argmax\<close>: the position of the first largest entry.\<close>

definition argmax :: "nat list \<Rightarrow> nat" where
  "argmax cs = length (takeWhile (\<lambda>c. c \<noteq> Max (set cs)) cs)"

text \<open>
  \<open>scipy.stats.mode\<close> of a one-dimensional array: the distinct values with their counts
  (\<open>np.unique(a, return_counts=True)\<close>), and the value at the \<open>argmax\<close> of the counts.
\<close>

definition stats_mode :: "real list \<Rightarrow> pyfloat" where
  "stats_mode xs =
     (if xs = [] then NaN
      else let vals = np_unique xs; cnts = map (count_list xs) vals
           in Float (vals ! argmax cnts))"

text \<open>
  \<open>get_recommended_sigma_um\<close>: \<open>contact_positions[:, 1]\<close> is an \<open>IndexError\<close> for an
  array with fewer than two columns.
\<close>

definition get_recommended_sigma_um :: "array2 \<Rightarrow> error + pyfloat" where
  "get_recommended_sigma_um positions =
     (if ncols positions < 2 then Inl IndexError
      else Inr (stats_mode (np_diff (np_unique (column positions 1)))))"

text \<open>
  \<open>preprocessing_tools.get_kriging_bad_channel_weights\<close> is not among the sources of the
  stage: the constructor takes it as a parameter, a function of the contact positions,
  the bad-channel indices, \<open>sigma_um\<close> and \<open>p\<close> that returns the weights or raises.
\<close>

type_synonym kriging = "array2 \<Rightarrow> int list \<Rightarrow> pyfloat \<Rightarrow> real \<Rightarrow> error + array2"

text \<open>
  \<open>a.setflags(write=False)\<close> on the index array object at position \<open>a\<close>: the flag of this
  object is cleared; the block of memory and the other array objects on it are as they
  were.
\<close>

definition setflags_readonly :: "nat \<Rightarrow> store \<Rightarrow> store" where
  "setflags_readonly a st =
     st\<lparr>index_arrs := (index_arrs st)[a := (index_arrs st ! a)\<lparr>idx_writeable := False\<rparr>]\<rparr>"

text \<open>
  \<open>calculate_weights_and_lock_channel_idxs\<close>: the weights are computed first; only when
  that has succeeded is the write flag of the index array cleared.
\<close>

definition calculate_weights_and_lock_channel_idxs ::
    "kriging \<Rightarrow> nat \<Rightarrow> array2 \<Rightarrow> pyfloat \<Rightarrow> real \<Rightarrow> store \<Rightarrow> (error + array2) \<times> store" where
  "calculate_weights_and_lock_channel_idxs kriging_weights a positions sigma_um p st =
     (case bad_channel_data st a of
        Inl err \<Rightarrow> (Inl err, st)
      | Inr idx \<Rightarrow>
          (case kriging_weights positions idx sigma_um p of
             Inl err \<Rightarrow> (Inl err, st)
           | Inr weights \<Rightarrow> (Inr weights, setflags_readonly a st)))"

text \<open>
  The stage object: its segments, the reference \<open>self.bad_channel_indexes\<close>, and the
  entries \<open>p\<close> and \<open>sigma_um\<close> of \<open>_kwargs\<close> (the entry \<open>bad_channel_indexes\<close> of \<open>_kwargs\<close> is
  the same reference, the entry \<open>recording\<close> is the parent).
\<close>

record interpolate_bad_channels =
  stage_segments :: "segment list"
  bad_channel_indexes :: nat
  kwargs_recording :: recording
  kwargs_p :: real
  kwargs_sigma_um :: pyfloat

text \<open>
  \<open>InterpolateBadChannels.__init__\<close>. The argument \<open>sigma_um\<close> is \<open>None\<close> or a number. An
  exception leaves the constructor with no object; the store is returned as the
  exception found it. (The base-class initialiser that runs first is not among the
  sources; it prepares the new object and touches no array.)
\<close>

definition init ::
    "kriging \<Rightarrow> recording \<Rightarrow> pyobj \<Rightarrow> real option \<Rightarrow> real \<Rightarrow> store
       \<Rightarrow> (error + interpolate_bad_channels) \<times> store" where
  "init kriging_weights rec bad sigma_um p st =
     (case check_inputs rec bad of
        Inl err \<Rightarrow> (Inl err, st)
      | Inr (a, pr) \<Rightarrow>
          (case (case sigma_um of
                   None \<Rightarrow> get_recommended_sigma_um (contact_positions pr)
                 | Some s \<Rightarrow> Inr (Float s)) of
             Inl err \<Rightarrow> (Inl err, st)
           | Inr sigma \<Rightarrow>
               (case calculate_weights_and_lock_channel_idxs kriging_weights a
                       (contact_positions pr) sigma p st of
                  (Inl err, st') \<Rightarrow> (Inl err, st')
                | (Inr weights, st') \<Rightarrow>
                    (Inr \<lparr>stage_segments =
                            map (\<lambda>parent_segment.
                                   InterpolateBadChannelsSegment parent_segment a weights)
                              (recording_segments rec),
                          bad_channel_indexes = a,
                          kwargs_recording = rec,
                          kwargs_p = p,
                          kwargs_sigma_um = sigma\<rparr>,
                     st'))))"

text \<open>
  An element assignment \<open>b[i] = v\<close> through the index array object at position \<open>b\<close>, as
  a caller may attempt it at any time: numpy raises a \<open>ValueError\<close> (assignment
  destination is read-only) when the write flag of this array object is cleared.
  Otherwise the element is written into the block of memory, where every array object
  on the block shows it.
\<close>

definition index_setitem :: "nat \<Rightarrow> int \<Rightarrow> int \<Rightarrow> store \<Rightarrow> error + store" where
  "index_setitem b i v st =
     (if length (index_arrs st) \<le> b then Inl DanglingReference
      else let arr = index_arrs st ! b
           in if length (index_bufs st) \<le> idx_buf arr then Inl DanglingReference
              else if \<not> idx_writeable arr then Inl ValueError
              else case norm_index (idx_length arr) i of
                     None \<Rightarrow> Inl IndexError
                   | Some j \<Rightarrow>
                       Inr (st\<lparr>index_bufs :=
                              (index_bufs st)[idx_buf arr :=
                                 (index_bufs st ! idx_buf arr)[idx_offset arr + j := v]]\<rparr>))"

text \<open>
  \<open>b.setflags(write=w)\<close> on the index array object at position \<open>b\<close>. Clearing the flag is
  always allowed. Setting it is allowed for an array that owns its memory, and for a
  view whose base is writeable; numpy raises a \<open>ValueError\<close> (cannot set WRITEABLE flag to
  True of this array) otherwise.
\<close>

definition may_set_writeable :: "store \<Rightarrow> index_array \<Rightarrow> bool" where
  "may_set_writeable st arr =
     (case idx_base arr of
        None \<Rightarrow> True
      | Some owner \<Rightarrow> owner < length (index_arrs st) \<and> idx_writeable (index_arrs st ! owner))"

definition index_setflags :: "nat \<Rightarrow> bool \<Rightarrow> store \<Rightarrow> error + store" where
  "index_setflags b w st =
     (if length (index_arrs st) \<le> b then Inl DanglingReference
      else let arr = index_arrs st ! b
           in if w \<and> \<not> may_set_writeable st arr then Inl ValueError
              else Inr (st\<lparr>index_arrs := (index_arrs st)[b := arr\<lparr>idx_writeable := w\<rparr>]\<rparr>))"

text \<open>
  What happens after the construction: pulls through segments, element assignments
  through index array objects, and changes of their write flags. An operation that
  raises has no effect beyond what it did to the store before raising.
\<close>

datatype operation =
  Pull segment nat nat channel_selection
| SetIndex nat int int
| SetFlags nat bool

fun run_operation :: "operation \<Rightarrow> store \<Rightarrow> store" where
  "run_operation (Pull seg start_frame end_frame channel_indices) st =
     snd (get_traces seg start_frame end_frame channel_indices st)"
| "run_operation (SetIndex b i v) st =
     (case index_setitem b i v st of Inl err \<Rightarrow> st | Inr st' \<Rightarrow> st')"
| "run_operation (SetFlags b w) st =
     (case index_setflags b w st of Inl err \<Rightarrow> st | Inr st' \<Rightarrow> st')"

definition run_operations :: "operation list \<Rightarrow> store \<Rightarrow> store" where
  "run_operations ops st = fold run_operation ops st"

text \<open>
  The operations that leave the index array object at position \<open>a\<close> alone: every pull;
  an element assignment through \<open>a\<close> itself, or through an array object that is not on
  the block of memory of \<open>a\<close>; a change of the flag of another array object, and clearing
  the flag of \<open>a\<close>. What is left out is setting the flag of \<open>a\<close> again, and assigning
  through another array object on the same block (a view of \<open>a\<close>, or the base of \<open>a\<close>).
\<close>

fun leaves_alone :: "store \<Rightarrow> nat \<Rightarrow> operation \<Rightarrow> bool" where
  "leaves_alone st a (Pull seg start_frame end_frame channel_indices) = True"
| "leaves_alone st a (SetIndex b i v) =
     (b = a \<or> length (index_arrs st) \<le> b
      \<or> idx_buf (index_arrs st ! b) \<noteq> idx_buf (index_arrs st ! a))"
| "leaves_alone st a (SetFlags b w) = (b \<noteq> a \<or> \<not> w)"

definition is_ndarray :: "pyobj \<Rightarrow> bool" where
  "is_ndarray x = (case x of NdArray a \<Rightarrow> True | PyList xs \<Rightarrow> False | PyInt x \<Rightarrow> False)"

subsection \<open>The default of \<open>sigma_um\<close>, in the words of the specification\<close>

text \<open>
  The specification's description of the default, to compare the code with: the distances
  between consecutive distinct y-coordinates, taken in increasing order, and a
  statistical mode of a list of values, that is, a value of the list that no other value
  of the list outnumbers.
\<close>

definition spec_consecutive_gaps :: "real list \<Rightarrow> real list" where
  "spec_consecutive_gaps ys =
     (let u = sorted_list_of_set (set ys)
      in map (\<lambda>i. u ! Suc i - u ! i) [0..<length u - 1])"

definition spec_statistical_mode :: "real \<Rightarrow> real list \<Rightarrow> bool" where
  "spec_statistical_mode m xs =
     (m \<in> set xs \<and> (\<forall>x\<in>set xs. count_list xs x \<le> count_list xs m))"

section \<open>The interpolation kernel\<close>

text \<open>
  Modelled from the spec: \<open>preprocessing_tools.get_kriging_bad_channel_weights\<close>, which
  computes the weight matrix, is not among the sources. The specification says: for each
  bad channel \<open>b\<close> and each good channel \<open>g\<close> the weight is
  \<open>exp(-(dist(b, g) / sigma_um) ^ p)\<close>, normalised so that the weights of \<open>b\<close> sum to 1
  over the good channels; the matrix has one row per channel and one column per bad
  channel, and the rows of the channels that no bad channel draws on, the bad channels
  themselves, are zero. Distances are Euclidean, between rows of the contact positions;
  the bad-channel indices are read as numpy reads indices.
\<close>

definition euclidean_distance :: "real list \<Rightarrow> real list \<Rightarrow> real" where
  "euclidean_distance a b = sqrt (sum_list (map2 (\<lambda>x y. (x - y) ^ 2) a b))"

definition kernel_weight :: "real \<Rightarrow> real \<Rightarrow> real \<Rightarrow> real" where
  "kernel_weight sigma_um p d = exp (- ((d / sigma_um) powr p))"

definition good_channels :: "nat \<Rightarrow> nat list \<Rightarrow> nat list" where
  "good_channels n bad = filter (\<lambda>c. c \<notin> set bad) [0..<n]"

definition raw_weight :: "array2 \<Rightarrow> real \<Rightarrow> real \<Rightarrow> nat \<Rightarrow> nat \<Rightarrow> real" where
  "raw_weight positions sigma_um p b g =
     kernel_weight sigma_um p (euclidean_distance (arows positions ! b) (arows positions ! g))"

text \<open>
  Modelled from the spec: the weight matrix, one row per channel and one column per bad
  channel; an out-of-bounds bad-channel index is an \<open>IndexError\<close>.
\<close>

definition get_kriging_bad_channel_weights :: "array2 \<Rightarrow> int list \<Rightarrow> real \<Rightarrow> real \<Rightarrow> error + array2" where
  "get_kriging_bad_channel_weights positions idx sigma_um p =
     (let n = length (arows positions)
      in case norm_indices n idx of
           None \<Rightarrow> Inl IndexError
         | Some bad \<Rightarrow>
             Inr \<lparr>dtype = FloatType, ncols = length bad,
                  arows =
                    map (\<lambda>c. map (\<lambda>b. if c \<in> set bad then 0
                                       else raw_weight positions sigma_um p b c
                                            / sum_list (map (raw_weight positions sigma_um p b)
                                                (good_channels n bad)))
                                bad)
                      [0..<n]\<rparr>)"

section \<open>The extension engine\<close>

text \<open>
  Modelled from the spec: the Analyzer and its \<open>compute\<close>, \<open>get_extension\<close> and
  \<open>select_units\<close> are not among the sources; only the common test suite that calls them
  is. The definitions of this section follow sections 3, 4.3 and 4.4 of the
  specification.

  An extension result holds the parameters it was computed with and its named fields,
  each indexed by unit or by spike. The sorting result is the spike table; a spike names
  its unit by the unit's index. The Analyzer owns the unit ids, the spikes and the cache
  of extension results, keyed by extension name. (The recording, the sparsity mask and
  the persistence backend play no part in the properties below and are left out.)
\<close>

type_synonym params = "(string \<times> int) list"

datatype field = PerUnit "real list" | PerSpike "real list"

record extension_result =
  ext_params :: params
  ext_fields :: "(string \<times> field) list"

record spike =
  sample_index :: nat
  unit_index :: nat
  segment_index :: nat

record analyzer =
  unit_ids :: "nat list"
  spikes :: "spike list"
  extensions :: "string \<rightharpoonup> extension_result"

text \<open>
  An extension class declares the names it depends on, whether it needs job arguments,
  its default parameters, and its algorithm (whose formulas are outside the
  specification: any function of the parameters, the unit ids and the spikes). The
  registry maps extension names to classes.
\<close>

record extension_class =
  depend_on :: "string list"
  need_job_kwargs :: bool
  default_params :: params
  algorithm :: "params \<Rightarrow> nat list \<Rightarrow> spike list \<Rightarrow> (string \<times> field) list"

type_synonym registry = "(string \<times> extension_class) list"

text \<open>
  A dependency name may list alternatives separated by \<open>|\<close>: Python's
  \<open>name.split("|")\<close>, and its element 0.
\<close>

fun split_bar :: "string \<Rightarrow> string list" where
  "split_bar [] = [[]]"
| "split_bar (c # cs) =
     (if c = CHR ''|'' then [] # split_bar cs
      else (case split_bar cs of [] \<Rightarrow> [[c]] | w # ws \<Rightarrow> (c # w) # ws))"

definition first_alternative :: "string \<Rightarrow> string" where
  "first_alternative d = (case split_bar d of [] \<Rightarrow> d | a # as \<Rightarrow> a)"

definition cached :: "analyzer \<Rightarrow> string \<Rightarrow> bool" where
  "cached an name = (extensions an name \<noteq> None)"

text \<open>
  Storing a result under its name overwrites what was cached there. A computation that
  is given no parameters uses the defaults of the class.
\<close>

definition store_extension :: "string \<Rightarrow> extension_class \<Rightarrow> params option \<Rightarrow> analyzer \<Rightarrow> analyzer" where
  "store_extension name cls ps an =
     (let q = (case ps of None \<Rightarrow> default_params cls | Some q \<Rightarrow> q)
      in an\<lparr>extensions := (extensions an)
              (name \<mapsto> \<lparr>ext_params = q, ext_fields = algorithm cls q (unit_ids an) (spikes an)\<rparr>)\<rparr>)"

text \<open>
  Modelled from the spec: dependency resolution (section 4.3). Computing an extension
  first ensures that each of its dependencies is satisfied. A dependency is satisfied
  when one of its alternatives is cached; otherwise its first alternative is computed
  with default parameters, which resolves that extension's own dependencies in turn. An
  unknown name is a \<open>NameError\<close>. The names under computation are carried along, and
  meeting one of them again is a \<open>CycleError\<close>. Each nested computation adds a
  registered name to them, so the number of registered names not under computation
  decreases: the resolution always terminates.
\<close>

definition unvisited :: "registry \<Rightarrow> string list \<Rightarrow> nat" where
  "unvisited reg visiting = length (filter (\<lambda>n. n \<notin> set visiting) (map fst reg))"

lemma unvisited_less:
  assumes "map_of reg name = Some cls" "name \<notin> set visiting"
  shows "unvisited reg (name # visiting) < unvisited reg visiting"
proof -
  let ?xs = "filter (\<lambda>n. n \<notin> set visiting) (map fst reg)"
  from assms(1) have "name \<in> set (map fst reg)" by (auto dest: map_of_SomeD intro: rev_image_eqI)
  with assms(2) have "name \<in> set ?xs" by simp
  then have "length (filter (\<lambda>n. n \<noteq> name) ?xs) < length ?xs"
    by (intro length_filter_less) auto
  moreover have "filter (\<lambda>n. n \<notin> set (name # visiting)) (map fst reg) = filter (\<lambda>n. n \<noteq> name) ?xs"
    by (auto intro: filter_cong)
  ultimately show ?thesis by (simp add: unvisited_def)
qed

function compute_extension ::
    "registry \<Rightarrow> string list \<Rightarrow> string \<Rightarrow> params option \<Rightarrow> analyzer \<Rightarrow> error + analyzer"
  and ensure_dependencies ::
    "registry \<Rightarrow> string list \<Rightarrow> string list \<Rightarrow> analyzer \<Rightarrow> error + analyzer" where
  "compute_extension reg visiting name ps an =
     (if name \<in> set visiting then Inl CycleError
      else case map_of reg name of
             None \<Rightarrow> Inl NameError
           | Some cls \<Rightarrow>
               (case ensure_dependencies reg (name # visiting) (depend_on cls) an of
                  Inl err \<Rightarrow> Inl err
                | Inr an' \<Rightarrow> Inr (store_extension name cls ps an')))"
| "ensure_dependencies reg visiting [] an = Inr an"
| "ensure_dependencies reg visiting (d # ds) an =
     (if list_ex (cached an) (split_bar d) then ensure_dependencies reg visiting ds an
      else case compute_extension reg visiting (first_alternative d) None an of
             Inl err \<Rightarrow> Inl err
           | Inr an' \<Rightarrow> ensure_dependencies reg visiting ds an')"
  by pat_completeness auto
termination
  by (relation "inv_image (less_than <*lex*> less_than)
        (\<lambda>x. case x of
                Inl (reg, visiting, name, ps, an) \<Rightarrow> (unvisited reg visiting, 0)
              | Inr (reg, visiting, ds, an) \<Rightarrow> (unvisited reg visiting, Suc (length ds)))")
     (auto simp: unvisited_less)

declare compute_extension.simps [simp del]

text \<open>
  Modelled from the spec: \<open>compute(name, **params)\<close> and \<open>get_extension(name)\<close> of
  section 4.4.
\<close>

definition compute :: "registry \<Rightarrow> string \<Rightarrow> params option \<Rightarrow> analyzer \<Rightarrow> error + analyzer" where
  "compute reg name ps an = compute_extension reg [] name ps an"

definition get_extension :: "analyzer \<Rightarrow> string \<Rightarrow> extension_result option" where
  "get_extension an name = extensions an name"

text \<open>The cached result under a name was computed with the default parameters of its class.\<close>

definition with_default_params :: "registry \<Rightarrow> string \<Rightarrow> analyzer \<Rightarrow> bool" where
  "with_default_params reg name an =
     (case (map_of reg name, extensions an name) of
        (Some cls, Some r) \<Rightarrow> ext_params r = default_params cls
      | _ \<Rightarrow> False)"

text \<open>
  How a resolution changes the Analyzer: what was cached stays as it was; what is newly
  cached was computed with default parameters and was not under computation; units and
  spikes stay.
\<close>

definition resolved_from :: "registry \<Rightarrow> string list \<Rightarrow> analyzer \<Rightarrow> analyzer \<Rightarrow> bool" where
  "resolved_from reg visiting an an' =
     ((\<forall>n. cached an n \<longrightarrow> extensions an' n = extensions an n)
      \<and> (\<forall>n. \<not> cached an n \<longrightarrow> cached an' n \<longrightarrow>
             with_default_params reg n an' \<and> n \<notin> set visiting)
      \<and> unit_ids an' = unit_ids an \<and> spikes an' = spikes an)"

subsection \<open>The common test suite\<close>

text \<open>
  \<open>AnalyzerExtensionCommonTestSuite._prepare_sorting_analyzer\<close>, from the sources: on a
  new Analyzer (\<open>get_sorting_analyzer\<close>, which creates one; its cache is empty) it computes
  \<open>random_spikes\<close> with \<open>max_spikes_per_unit=50, seed=2205\<close>, and then, for each declared
  dependency in turn, the dependency itself or, when its name contains \<open>|\<close>, its first
  alternative, with no parameters. \<open>_check_one\<close> selects every second unit
  (\<open>unit_ids[::2]\<close>).
\<close>

definition get_sorting_analyzer :: "nat list \<Rightarrow> spike list \<Rightarrow> analyzer" where
  "get_sorting_analyzer units spks = \<lparr>unit_ids = units, spikes = spks, extensions = Map.empty\<rparr>"

fun compute_dependencies :: "registry \<Rightarrow> string list \<Rightarrow> analyzer \<Rightarrow> error + analyzer" where
  "compute_dependencies reg [] an = Inr an"
| "compute_dependencies reg (dependency_name # rest) an =
     (case compute reg
             (if CHR ''|'' \<in> set dependency_name then first_alternative dependency_name
              else dependency_name) None an of
        Inl err \<Rightarrow> Inl err
      | Inr an' \<Rightarrow> compute_dependencies reg rest an')"

definition prepare_sorting_analyzer ::
    "registry \<Rightarrow> nat list \<Rightarrow> spike list \<Rightarrow> extension_class \<Rightarrow> error + analyzer" where
  "prepare_sorting_analyzer reg units spks extension_class =
     (case compute reg ''random_spikes'' (Some [(''max_spikes_per_unit'', 50), (''seed'', 2205)])
             (get_sorting_analyzer units spks) of
        Inl err \<Rightarrow> Inl err
      | Inr an \<Rightarrow> compute_dependencies reg (depend_on extension_class) an)"

fun every_second :: "'a list \<Rightarrow> 'a list" where
  "every_second [] = []"
| "every_second [x] = [x]"
| "every_second (x # y # zs) = x # every_second zs"

subsection \<open>Projection onto a unit subset\<close>

text \<open>
  Modelled from the spec: \<open>select_units(unit_subset)\<close> (section 4.4) makes a new Analyzer
  whose units are the subset in the order given; the spikes of other units are dropped
  and the unit index of every kept spike is its unit's position in the subset; in every
  cached result a per-unit field is projected onto the subset and a per-spike field
  keeps the values of the kept spikes. The specification does not say what happens when
  the argument names a unit that the Analyzer does not have: the model then returns
  nothing.
\<close>

fun index_of :: "nat \<Rightarrow> nat list \<Rightarrow> nat option" where
  "index_of u [] = None"
| "index_of u (v # vs) = (if u = v then Some 0 else map_option Suc (index_of u vs))"

definition new_unit_index :: "nat list \<Rightarrow> nat list \<Rightarrow> spike \<Rightarrow> nat option" where
  "new_unit_index ids some_unit_ids sp =
     (if unit_index sp < length ids then index_of (ids ! unit_index sp) some_unit_ids else None)"

definition select_spikes :: "nat list \<Rightarrow> nat list \<Rightarrow> spike list \<Rightarrow> spike list" where
  "select_spikes ids some_unit_ids spks =
     List.map_filter (\<lambda>sp. map_option (\<lambda>k. sp\<lparr>unit_index := k\<rparr>) (new_unit_index ids some_unit_ids sp)) spks"

definition select_field :: "nat list \<Rightarrow> nat list \<Rightarrow> spike list \<Rightarrow> field \<Rightarrow> field" where
  "select_field ids some_unit_ids spks fld =
     (case fld of
        PerUnit xs \<Rightarrow>
          PerUnit (List.map_filter
            (\<lambda>u. case index_of u ids of
                    None \<Rightarrow> None
                  | Some i \<Rightarrow> if i < length xs then Some (xs ! i) else None) some_unit_ids)
      | PerSpike xs \<Rightarrow>
          PerSpike (map snd (filter (\<lambda>(sp, x). new_unit_index ids some_unit_ids sp \<noteq> None) (zip spks xs))))"

definition select_result ::
    "nat list \<Rightarrow> nat list \<Rightarrow> spike list \<Rightarrow> extension_result \<Rightarrow> extension_result" where
  "select_result ids some_unit_ids spks r =
     r\<lparr>ext_fields := map (\<lambda>(name, fld). (name, select_field ids some_unit_ids spks fld)) (ext_fields r)\<rparr>"

definition select_units :: "analyzer \<Rightarrow> nat list \<Rightarrow> analyzer option" where
  "select_units an some_unit_ids =
     (if list_all (\<lambda>u. u \<in> set (unit_ids an)) some_unit_ids
      then Some \<lparr>unit_ids = some_unit_ids,
                 spikes = select_spikes (unit_ids an) some_unit_ids (spikes an),
                 extensions =
                   (\<lambda>name. map_option (select_result (unit_ids an) some_unit_ids (spikes an))
                             (extensions an name))\<rparr>
      else None)"

text \<open>
  The invariants of an Analyzer (section 3): unit ids are distinct, every spike names a
  unit, and a cached field has one value per unit or one value per spike.
\<close>

definition wf_field :: "analyzer \<Rightarrow> field \<Rightarrow> bool" where
  "wf_field an fld =
     (case fld of
        PerUnit xs \<Rightarrow> length xs = length (unit_ids an)
      | PerSpike xs \<Rightarrow> length xs = length (spikes an))"

definition wf_analyzer :: "analyzer \<Rightarrow> bool" where
  "wf_analyzer an =
     (distinct (unit_ids an)
      \<and> list_all (\<lambda>sp. unit_index sp < length (unit_ids an)) (spikes an)
      \<and> (\<forall>name r. extensions an name = Some r \<longrightarrow>
            list_all (\<lambda>(f, fld). wf_field an fld) (ext_fields r)))"

section \<open>Examples\<close>

definition example_store :: store where
  "example_store =
     \<lparr>trace_bufs = [\<lparr>dtype = FloatType, ncols = 2, arows = [[1, 2], [3, 4], [5, 6]]\<rparr>],
      index_bufs = [[1]],
      index_arrs = [\<lparr>idx_buf = 0, idx_offset = 0, idx_length = 1,
                     idx_writeable = False, idx_base = None\<rparr>]\<rparr>"

definition example_weights :: array2 where
  "example_weights = \<lparr>dtype = FloatType, ncols = 1, arows = [[1], [0]]\<rparr>"

text \<open>
  The same three frames held as \<open>int16\<close>, the element type of raw recordings, and a weight
  matrix that gives half of the weight to channel 0.
\<close>

definition example_store_int16 :: store where
  "example_store_int16 =
     \<lparr>trace_bufs = [\<lparr>dtype = IntType 16, ncols = 2, arows = [[1, 2], [3, 4], [5, 6]]\<rparr>],
      index_bufs = [[1]],
      index_arrs = [\<lparr>idx_buf = 0, idx_offset = 0, idx_length = 1,
                     idx_writeable = False, idx_base = None\<rparr>]\<rparr>"

definition example_weights_half :: array2 where
  "example_weights_half = \<lparr>dtype = FloatType, ncols = 1, arows = [[1 / 2], [0]]\<rparr>"

definition example_segment :: segment where
  "example_segment = InterpolateBadChannelsSegment (NumpySegment 0) 0 example_weights"

text \<open>
  A probe with four contacts in one column, 20 micrometres apart, and a one-segment
  recording of four channels on it; channel 3 is flagged as bad.
\<close>

definition example_probe :: probe where
  "example_probe =
     \<lparr>si_units = ''um'',
      contact_positions = \<lparr>dtype = FloatType, ncols = 2, arows = [[0, 0], [0, 20], [0, 40], [0, 60]]\<rparr>\<rparr>"

definition example_recording :: recording where
  "example_recording =
     \<lparr>rec_probe = Some example_probe, recording_segments = [NumpySegment 0]\<rparr>"

definition example_store4 :: store where
  "example_store4 =
     \<lparr>trace_bufs = [\<lparr>dtype = FloatType, ncols = 4, arows = [[1, 2, 3, 4]]\<rparr>],
      index_bufs = [[3]],
      index_arrs = [\<lparr>idx_buf = 0, idx_offset = 0, idx_length = 1,
                     idx_writeable = True, idx_base = None\<rparr>]\<rparr>"

text \<open>
  The same, with the index array of the caller as a view: \<open>base = np.array([3])\<close> is the
  array object at position 1, which owns the memory, and \<open>bad = base[:]\<close>, the array
  object at position 0, is what the caller hands to the stage.
\<close>

definition example_store_view :: store where
  "example_store_view =
     \<lparr>trace_bufs = [\<lparr>dtype = FloatType, ncols = 4, arows = [[1, 2, 3, 4]]\<rparr>],
      index_bufs = [[3]],
      index_arrs = [\<lparr>idx_buf = 0, idx_offset = 0, idx_length = 1,
                     idx_writeable = True, idx_base = Some 1\<rparr>,
                    \<lparr>idx_buf = 0, idx_offset = 0, idx_length = 1,
                     idx_writeable = True, idx_base = None\<rparr>]\<rparr>"

text \<open>The segment of the stage that the constructor builds on the example recording.\<close>

definition example_stage_segment :: segment where
  "example_stage_segment =
     InterpolateBadChannelsSegment (NumpySegment 0) 0
       \<lparr>dtype = FloatType, ncols = 1, arows = [[0], [0], [1], [0]]\<rparr>"

text \<open>
  A stand-in for the weight function in the examples: the nearest-neighbour weights of
  channel 3 on the example probe (all of the weight on channel 2).
\<close>

definition example_kriging :: kriging where
  "example_kriging positions idx sigma_um p = Inr \<lparr>dtype = FloatType, ncols = 1, arows = [[0], [0], [1], [0]]\<rparr>"

text \<open>
  A registry of four extensions, in which \<open>templates\<close> depends on one of \<open>waveforms\<close> and
  \<open>random_spikes\<close>, and an Analyzer of three units and three spikes with \<open>templates\<close>
  cached.
\<close>

definition example_registry :: registry where
  "example_registry =
     [(''random_spikes'',
        \<lparr>depend_on = [], need_job_kwargs = False,
         default_params = [(''max_spikes_per_unit'', 500)],
         algorithm = (\<lambda>ps ids spks. [(''random_spikes_indices'', PerSpike (map (\<lambda>sp. 1) spks))])\<rparr>),
      (''waveforms'',
        \<lparr>depend_on = [''random_spikes''], need_job_kwargs = True,
         default_params = [(''ms_before'', 1)],
         algorithm = (\<lambda>ps ids spks. [(''waveforms'', PerSpike (map (\<lambda>sp. 0) spks))])\<rparr>),
      (''templates'',
        \<lparr>depend_on = [''waveforms|random_spikes''], need_job_kwargs = False,
         default_params = [(''ms_before'', 1)],
         algorithm = (\<lambda>ps ids spks. [(''average'', PerUnit (map (\<lambda>u. 0) ids))])\<rparr>),
      (''amplitude_scalings'',
        \<lparr>depend_on = [''templates''], need_job_kwargs = True,
         default_params = [(''handle_collisions'', 1)],
         algorithm = (\<lambda>ps ids spks. [(''amplitude_scalings'', PerSpike (map (\<lambda>sp. 1) spks))])\<rparr>)]"

definition example_spikes :: "spike list" where
  "example_spikes =
     [\<lparr>sample_index = 10, unit_index = 0, segment_index = 0\<rparr>,
      \<lparr>sample_index = 25, unit_index = 2, segment_index = 0\<rparr>,
      \<lparr>sample_index = 7, unit_index = 1, segment_index = 1\<rparr>]"

definition example_analyzer :: analyzer where
  "example_analyzer =
     \<lparr>unit_ids = [4, 5, 6], spikes = example_spikes,
      extensions = [''templates'' \<mapsto>
        \<lparr>ext_params = [(''ms_before'', 1)], ext_fields = [(''average'', PerUnit [1, 2, 3])]\<rparr>]\<rparr>"

definition example_templates_class :: extension_class where
  "example_templates_class =
     \<lparr>depend_on = [''waveforms|random_spikes''], need_job_kwargs = False,
      default_params = [(''ms_before'', 1)],
      algorithm = (\<lambda>ps ids spks. [(''average'', PerUnit (map (\<lambda>u. 0) ids))])\<rparr>"

section \<open>Lemmas about the array operations\<close>

lemma norm_indices_length: "norm_indices n is = Some js \<Longrightarrow> length js = length is"
  by (induction "is" arbitrary: js) (auto split: option.splits)

lemma norm_index_bound: "norm_index n i = Some j \<Longrightarrow> j < n"
  by (auto simp: norm_index_def split: if_splits)

lemma norm_indices_bound: "norm_indices n is = Some js \<Longrightarrow> j \<in> set js \<Longrightarrow> j < n"
  by (induction "is" arbitrary: js) (auto split: option.splits dest: norm_index_bound)

lemma length_assign_row: "length (assign_row js p r) = length r"
proof -
  have "length (fold (\<lambda>(j, v) acc. acc[j := v]) zs r) = length r" for zs
    by (induction zs arbitrary: r) auto
  then show ?thesis by (simp add: assign_row_def)
qed

lemma assign_row_other: "c \<notin> set js \<Longrightarrow> assign_row js p r ! c = r ! c"
proof (induction js arbitrary: p r)
  case Nil
  then show ?case by (simp add: assign_row_def)
next
  case (Cons j js)
  show ?case
  proof (cases p)
    case Nil
    then show ?thesis by (simp add: assign_row_def)
  next
    case (Cons v p')
    have "assign_row (j # js) p r = assign_row js p' (r[j := v])"
      by (simp add: assign_row_def Cons)
    with Cons.IH [of p' "r[j := v]"] Cons.prems show ?thesis by simp
  qed
qed

lemma assign_row_hit:
  "length p = length js \<Longrightarrow> \<forall>j\<in>set js. j < length r \<Longrightarrow> k < length js
   \<Longrightarrow> js ! k \<notin> set (drop (Suc k) js)
   \<Longrightarrow> assign_row js p r ! (js ! k) = p ! k"
proof (induction js arbitrary: p r k)
  case Nil
  then show ?case by simp
next
  case (Cons j js)
  then obtain v p' where p: "p = v # p'" by (cases p) auto
  have step: "assign_row (j # js) p r = assign_row js p' (r[j := v])"
    by (simp add: assign_row_def p)
  show ?case
  proof (cases k)
    case 0
    with Cons.prems step p show ?thesis by (simp add: assign_row_other)
  next
    case (Suc k')
    with Cons.prems p have "assign_row js p' (r[j := v]) ! (js ! k') = p' ! k'"
      by (intro Cons.IH) auto
    with Suc step p show ?thesis by simp
  qed
qed

lemma distinct_last_occurrence:
  "distinct js \<Longrightarrow> k < length js \<Longrightarrow> js ! k \<notin> set (drop (Suc k) js)"
  by (auto simp: in_set_conv_nth distinct_conv_nth)

lemma length_broadcast: "length xs = k \<or> length xs = 1 \<Longrightarrow> length (broadcast k xs) = k"
  by (auto simp: broadcast_def)

lemma cast_to_float: "map (cast_to FloatType) xs = xs"
  by (induction xs) (simp_all add: cast_to_def)

lemma setitem_columns_shape:
  "setitem_columns t idx p = Inr t' \<Longrightarrow>
   ncols t' = ncols t \<and> length (arows t') = length (arows t) \<and> dtype t' = dtype t"
  by (auto simp: setitem_columns_def broadcast_def split: if_splits option.splits)

lemma setitem_columns_rectangular:
  "setitem_columns t idx p = Inr t' \<Longrightarrow> rectangular t \<Longrightarrow> rectangular t'"
  by (auto simp: setitem_columns_def rectangular_def list_all_iff length_assign_row
      split: if_splits option.splits dest!: set_zip_leftD)

lemma array2_eta: "\<lparr>dtype = dtype t, ncols = ncols (t::array2), arows = arows t\<rparr> = t"
  by (cases t) simp

lemma deref_np_copy: "deref (snd (np_copy v st)) (fst (np_copy v st)) = deref st v"
  by (simp add: np_copy_def Let_def array2_eta)

lemma copy_then_setitem:
  "store_setitem_columns (fst (np_copy v st)) idx p (snd (np_copy v st)) =
     (case setitem_columns (deref st v) idx p of
        Inl err \<Rightarrow> Inl err
      | Inr t' \<Rightarrow> Inr (st\<lparr>trace_bufs := trace_bufs st @ [t']\<rparr>))"
proof (cases "setitem_columns (deref st v) idx p")
  case (Inl err)
  then show ?thesis by (simp add: np_copy_def Let_def array2_eta)
next
  case (Inr t')
  from setitem_columns_shape [OF Inr]
  have "ncols t' = ncols (deref st v)" "length (arows t') = length (arows (deref st v))"
    "dtype t' = dtype (deref st v)"
    by simp_all
  then have "(deref st v)\<lparr>arows := arows t'\<rparr> = t'" by simp
  with Inr \<open>length (arows t') = length (arows (deref st v))\<close> show ?thesis
    by (simp add: np_copy_def Let_def array2_eta)
qed

section \<open>Lemmas about pulls\<close>

lemma np_copy_store:
  "snd (np_copy v st) = st\<lparr>trace_bufs := trace_bufs st @ [deref st v]\<rparr>"
  "fst (np_copy v st) = View (length (trace_bufs st)) 0 (length (arows (deref st v)))"
  by (simp_all add: np_copy_def Let_def)

lemma bad_channel_data_np_copy:
  "bad_channel_data (snd (np_copy v st)) b = bad_channel_data st b"
  by (simp add: np_copy_store bad_channel_data_def index_data_def)

lemma get_traces_interp_err:
  "get_traces parent s e AllChannels st = (Inl err, st1) \<Longrightarrow>
   get_traces (InterpolateBadChannelsSegment parent b w) s e cs st = (Inl err, st1)"
  by simp

lemma get_traces_interp:
  assumes "get_traces parent s e AllChannels st = (Inr v, st1)"
  shows "get_traces (InterpolateBadChannelsSegment parent b w) s e cs st =
     (case matmul (deref st1 v) w of
        Inl err \<Rightarrow> (Inl err, snd (np_copy v st1))
      | Inr p \<Rightarrow>
          (case bad_channel_data st1 b of
             Inl err \<Rightarrow> (Inl err, snd (np_copy v st1))
           | Inr idx \<Rightarrow>
               (case setitem_columns (deref st1 v) idx p of
                  Inl err \<Rightarrow> (Inl err, snd (np_copy v st1))
                | Inr t' \<Rightarrow>
                    (Inr (fst (np_copy v st1)), st1\<lparr>trace_bufs := trace_bufs st1 @ [t']\<rparr>))))"
proof -
  obtain cp st2 where c: "np_copy v st1 = (cp, st2)" by force
  then have cp: "cp = fst (np_copy v st1)" and st2: "st2 = snd (np_copy v st1)" by simp_all
  have d: "deref st2 cp = deref st1 v" unfolding cp st2 by (rule deref_np_copy)
  have bd: "bad_channel_data st2 b = bad_channel_data st1 b"
    unfolding st2 by (rule bad_channel_data_np_copy)
  have ss: "store_setitem_columns cp idx p st2 =
     (case setitem_columns (deref st1 v) idx p of
        Inl err \<Rightarrow> Inl err
      | Inr t' \<Rightarrow> Inr (st1\<lparr>trace_bufs := trace_bufs st1 @ [t']\<rparr>))" for idx p
    unfolding cp st2 by (rule copy_then_setitem)
  show ?thesis
    using assms c d bd ss
    by (simp add: cp [symmetric] st2 [symmetric] split: sum.splits)
qed

lemma get_traces_frame:
  "\<exists>ext. trace_bufs (snd (get_traces seg s e cs st)) = trace_bufs st @ ext
     \<and> index_arrs (snd (get_traces seg s e cs st)) = index_arrs st
     \<and> index_bufs (snd (get_traces seg s e cs st)) = index_bufs st"
proof (induction seg arbitrary: cs st)
  case (NumpySegment a)
  then show ?case by (auto split: channel_selection.splits sum.splits)
next
  case (ReaderSegment read)
  then show ?case by (auto split: sum.splits)
next
  case (InterpolateBadChannelsSegment parent b w)
  obtain r st1 where p: "get_traces parent s e AllChannels st = (r, st1)" by force
  from InterpolateBadChannelsSegment.IH [of AllChannels st] p
  obtain ext where st1: "trace_bufs st1 = trace_bufs st @ ext" "index_arrs st1 = index_arrs st"
    "index_bufs st1 = index_bufs st"
    by auto
  show ?case
  proof (cases r)
    case (Inl err)
    with p st1 show ?thesis by simp
  next
    case (Inr v)
    with p have "get_traces parent s e AllChannels st = (Inr v, st1)" by simp
    from get_traces_interp [OF this, of b w cs] st1 show ?thesis
      by (auto simp: np_copy_store split: sum.splits)
  qed
qed

text \<open>
  What a pull returns, as a function of what the parent's pull returns: the store drops
  out of the description.
\<close>

lemma pull_numpy_all:
  "pull (NumpySegment a) s e AllChannels st =
     (if length (trace_bufs st) \<le> a then Inl DanglingReference
      else Inr (deref st (View a s e)))"
  by (simp add: pull_def)

lemma pull_interp:
  "pull (InterpolateBadChannelsSegment parent b w) s e cs st =
     (case pull parent s e AllChannels st of
        Inl err \<Rightarrow> Inl err
      | Inr t \<Rightarrow>
          (case matmul t w of
             Inl err \<Rightarrow> Inl err
           | Inr p \<Rightarrow>
               (case bad_channel_data st b of
                  Inl err \<Rightarrow> Inl err
                | Inr idx \<Rightarrow> setitem_columns t idx p)))"
proof -
  obtain r st1 where p: "get_traces parent s e AllChannels st = (r, st1)" by force
  from get_traces_frame [of parent s e AllChannels st] p
  have ia: "index_arrs st1 = index_arrs st" "index_bufs st1 = index_bufs st" by auto
  then have bd: "bad_channel_data st1 b = bad_channel_data st b"
    by (simp add: bad_channel_data_def index_data_def)
  show ?thesis
  proof (cases r)
    case (Inl err)
    with p show ?thesis by (simp add: pull_def)
  next
    case (Inr v)
    with p have pv: "get_traces parent s e AllChannels st = (Inr v, st1)" by simp
    have "pull parent s e AllChannels st = Inr (deref st1 v)"
      by (simp add: pull_def pv)
    moreover have "deref (st1\<lparr>trace_bufs := trace_bufs st1 @ [t']\<rparr>) (fst (np_copy v st1)) = t'"
      if "setitem_columns (deref st1 v) idx p = Inr t'" for idx p t'
      using setitem_columns_shape [OF that] by (simp add: np_copy_store array2_eta)
    ultimately show ?thesis
      unfolding pull_def get_traces_interp [OF pv] bd
      by (auto split: sum.splits)
  qed
qed


lemma pull_numpy_channels:
  "pull (NumpySegment a) s e (Channels idx) st =
     (if length (trace_bufs st) \<le> a then Inl DanglingReference
      else take_columns (deref st (View a s e)) idx)"
  by (auto simp: pull_def array2_eta take_columns_def split: sum.splits option.splits)

lemma pull_reader: "pull (ReaderSegment read) s e cs st = read s e cs"
  by (auto simp: pull_def array2_eta split: sum.splits)

lemma deref_extend:
  "a < length (trace_bufs st) \<Longrightarrow> trace_bufs st' = trace_bufs st @ ext \<Longrightarrow>
   deref st' (View a lo hi) = deref st (View a lo hi)"
  by (simp add: nth_append)

lemma wf_segment_extend:
  "wf_segment st seg \<Longrightarrow> trace_bufs st' = trace_bufs st @ ext \<Longrightarrow>
   index_arrs st' = index_arrs st \<Longrightarrow> wf_segment st' seg"
  by (induction seg) auto

lemma pull_extend:
  "wf_segment st seg \<Longrightarrow> trace_bufs st' = trace_bufs st @ ext \<Longrightarrow>
   index_arrs st' = index_arrs st \<Longrightarrow> index_bufs st' = index_bufs st \<Longrightarrow>
   pull seg s e cs st' = pull seg s e cs st"
proof (induction seg arbitrary: cs)
  case (NumpySegment a)
  then have "deref st' (View a s e) = deref st (View a s e)"
    by (intro deref_extend) auto
  with NumpySegment show ?case
    by (cases cs) (simp_all add: pull_numpy_all pull_numpy_channels del: deref.simps)
next
  case (ReaderSegment read)
  show ?case by (simp add: pull_reader)
next
  case (InterpolateBadChannelsSegment parent b w)
  then have "pull parent s e AllChannels st' = pull parent s e AllChannels st" by simp
  moreover from InterpolateBadChannelsSegment.prems
  have "bad_channel_data st' b = bad_channel_data st b"
    by (simp add: bad_channel_data_def index_data_def)
  ultimately show ?case by (simp add: pull_interp split: sum.splits)
qed

lemma get_traces_ref_valid:
  "wf_segment st seg \<Longrightarrow> get_traces seg s e cs st = (Inr (View a lo hi), st') \<Longrightarrow>
   a < length (trace_bufs st')"
proof (cases seg)
  case (NumpySegment a')
  assume "get_traces seg s e cs st = (Inr (View a lo hi), st')"
  with NumpySegment show ?thesis
    by (auto split: if_splits channel_selection.splits sum.splits)
next
  case (ReaderSegment read)
  assume "get_traces seg s e cs st = (Inr (View a lo hi), st')"
  with ReaderSegment show ?thesis by (auto split: sum.splits)
next
  case (InterpolateBadChannelsSegment parent b w)
  assume g: "get_traces seg s e cs st = (Inr (View a lo hi), st')"
  obtain r st1 where p: "get_traces parent s e AllChannels st = (r, st1)" by force
  show ?thesis
  proof (cases r)
    case (Inl err)
    with p g InterpolateBadChannelsSegment show ?thesis by simp
  next
    case (Inr v)
    with p have "get_traces parent s e AllChannels st = (Inr v, st1)" by simp
    from get_traces_interp [OF this, of b w cs] g InterpolateBadChannelsSegment show ?thesis
      by (auto simp: np_copy_store split: sum.splits)
  qed
qed

lemma frame_nth:
  "a < length (trace_bufs st) \<Longrightarrow>
   trace_bufs (snd (get_traces seg s e cs st)) ! a = trace_bufs st ! a"
  using get_traces_frame [of seg s e cs st] by (auto simp: nth_append)


lemma rectangular_deref:
  "wf_store st \<Longrightarrow> rectangular (deref st v)"
proof -
  obtain a lo hi where v: "v = View a lo hi" by (cases v)
  assume "wf_store st"
  then show ?thesis
    by (auto simp: v wf_store_def rectangular_def list_all_iff dest!: in_set_dropD in_set_takeD)
qed

lemma rectangular_take_columns: "take_columns t idx = Inr t' \<Longrightarrow> rectangular t'"
  by (auto simp: take_columns_def rectangular_def list_all_iff split: option.splits)

lemma pull_rectangular:
  "wf_store st \<Longrightarrow> wf_segment st seg \<Longrightarrow> pull seg s e cs st = Inr t \<Longrightarrow> rectangular t"
proof (induction seg arbitrary: cs t)
  case (NumpySegment a)
  then show ?case
    by (cases cs)
       (auto simp: pull_numpy_all pull_numpy_channels rectangular_deref rectangular_take_columns
          simp del: deref.simps split: if_splits)
next
  case (ReaderSegment read)
  then show ?case by (auto simp: pull_reader)
next
  case (InterpolateBadChannelsSegment parent b w)
  then show ?case
    by (auto simp: pull_interp split: sum.splits dest: setitem_columns_rectangular)
qed

lemma matmul_shape:
  "matmul t w = Inr p \<Longrightarrow>
   ncols p = ncols w \<and> length (arows p) = length (arows t) \<and> rectangular p \<and>
   dtype p = FloatType"
  by (auto simp: matmul_def rectangular_def list_all_iff split: if_splits)

lemma setitem_columns_exact:
  assumes "length (arows p) = length (arows t)" "ncols p = length idx"
    and "norm_indices (ncols t) idx = Some js"
  shows "setitem_columns t idx p =
     Inr (t\<lparr>arows := map2 (\<lambda>r pr. assign_row js
                                     (map (cast_to (dtype t)) (broadcast (length js) pr)) r)
                         (arows t) (arows p)\<rparr>)"
  using assms by (simp add: setitem_columns_def broadcast_def)

lemma column_setitem_hit:
  assumes rt: "rectangular t" and rp: "rectangular p"
    and len: "length (arows p) = length (arows t)" and nc: "ncols p = length js"
    and js: "\<forall>j\<in>set js. j < ncols t" and k: "k < length js"
    and last: "js ! k \<notin> set (drop (Suc k) js)"
  shows "column (t\<lparr>arows := map2 (\<lambda>r pr. assign_row js
                                     (map (cast_to (dtype t)) (broadcast (length js) pr)) r)
                   (arows t) (arows p)\<rparr>) (js ! k) = map (cast_to (dtype t)) (column p k)"
proof -
  have "assign_row js (map (cast_to (dtype t)) (broadcast (length js) (arows p ! i)))
          (arows t ! i) ! (js ! k) = cast_to (dtype t) (arows p ! i ! k)"
    if i: "i < length (arows t)" for i
  proof -
    from i len rp nc have lp: "length (arows p ! i) = length js"
      by (simp add: rectangular_def list_all_length)
    from i rt have lt: "length (arows t ! i) = ncols t"
      by (simp add: rectangular_def list_all_length)
    have lp': "length (map (cast_to (dtype t)) (arows p ! i)) = length js"
      by (simp add: lp)
    have bc: "broadcast (length js) (arows p ! i) = arows p ! i"
      by (simp add: broadcast_def lp)
    from k lp have "map (cast_to (dtype t)) (arows p ! i) ! k = cast_to (dtype t) (arows p ! i ! k)"
      by simp
    with assign_row_hit [OF lp' _ k last, of "arows t ! i"] js lt show ?thesis
      by (simp add: bc)
  qed
  then show ?thesis
    using len by (auto simp: column_def intro!: nth_equalityI)
qed

lemma column_setitem_other:
  assumes len: "length (arows p) = length (arows t)" and c: "c \<notin> set js"
  shows "column (t\<lparr>arows := map2 (\<lambda>r pr. assign_row js
                                     (map (cast_to (dtype t)) (broadcast (length js) pr)) r)
                   (arows t) (arows p)\<rparr>) c = column t c"
  using len by (auto simp: column_def assign_row_other [OF c] intro!: nth_equalityI)

section \<open>Lemmas about the stage\<close>

lemma map_update_same:
  "f y = f (xs ! b) \<Longrightarrow> map f (xs[b := y]) = map f xs"
  by (induction xs arbitrary: b) (simp_all split: nat.split)

lemma run_operation_locked:
  assumes a: "a < length (index_arrs st)"
    and ro: "\<not> idx_writeable (index_arrs st ! a)"
    and x: "leaves_alone st a x"
  shows "map idx_buf (index_arrs (run_operation x st)) = map idx_buf (index_arrs st)
     \<and> index_arrs (run_operation x st) ! a = index_arrs st ! a
     \<and> length (index_bufs (run_operation x st)) = length (index_bufs st)
     \<and> index_bufs (run_operation x st) ! idx_buf (index_arrs st ! a) =
         index_bufs st ! idx_buf (index_arrs st ! a)"
proof (cases x)
  case (Pull seg s e cs)
  with get_traces_frame [of seg s e cs st] show ?thesis by auto
next
  case (SetIndex b i v)
  with a ro x show ?thesis
    by (auto simp: index_setitem_def Let_def split: option.splits)
next
  case (SetFlags b w)
  show ?thesis
  proof (cases "b = a")
    case True
    with SetFlags x have "\<not> w" by simp
    moreover from ro have "(index_arrs st ! a)\<lparr>idx_writeable := False\<rparr> = index_arrs st ! a"
      by (cases "index_arrs st ! a") simp
    ultimately show ?thesis using SetFlags True a
      by (simp add: index_setflags_def Let_def)
  next
    case False
    with SetFlags a show ?thesis
      by (auto simp: index_setflags_def Let_def map_update_same)
  qed
qed

lemma leaves_alone_cong:
  assumes m: "map idx_buf (index_arrs st1) = map idx_buf (index_arrs st)"
    and a: "a < length (index_arrs st)"
  shows "leaves_alone st1 a x = leaves_alone st a x"
proof -
  from m have len: "length (index_arrs st1) = length (index_arrs st)"
    by (rule map_eq_imp_length_eq)
  have nth: "idx_buf (index_arrs st1 ! b) = idx_buf (index_arrs st ! b)"
    if "b < length (index_arrs st)" for b
  proof -
    from that len have "idx_buf (index_arrs st1 ! b) = map idx_buf (index_arrs st1) ! b" by simp
    also have "\<dots> = map idx_buf (index_arrs st) ! b" by (simp only: m)
    also from that have "\<dots> = idx_buf (index_arrs st ! b)" by simp
    finally show ?thesis .
  qed
  show ?thesis
  proof (cases x)
    case (Pull seg s e cs)
    then show ?thesis by simp
  next
    case (SetIndex b i v)
    show ?thesis
    proof (cases "b < length (index_arrs st)")
      case True
      with SetIndex len nth [OF True] nth [OF a] show ?thesis by simp
    next
      case False
      with SetIndex len show ?thesis by simp
    qed
  next
    case (SetFlags b w)
    then show ?thesis by simp
  qed
qed

lemma run_operations_locked:
  assumes "a < length (index_arrs st)"
    and "\<not> idx_writeable (index_arrs st ! a)"
    and "list_all (leaves_alone st a) ops"
  shows "index_arrs (run_operations ops st) ! a = index_arrs st ! a
     \<and> length (index_arrs (run_operations ops st)) = length (index_arrs st)
     \<and> length (index_bufs (run_operations ops st)) = length (index_bufs st)
     \<and> index_bufs (run_operations ops st) ! idx_buf (index_arrs st ! a) =
         index_bufs st ! idx_buf (index_arrs st ! a)"
  using assms
proof (induction ops arbitrary: st)
  case Nil
  then show ?case by (simp add: run_operations_def)
next
  case (Cons x ops)
  let ?s = "run_operation x st"
  from Cons.prems have x: "leaves_alone st a x" and rest: "list_all (leaves_alone st a) ops"
    by simp_all
  from run_operation_locked [OF Cons.prems(1,2) x]
  have m: "map idx_buf (index_arrs ?s) = map idx_buf (index_arrs st)"
    and n: "index_arrs ?s ! a = index_arrs st ! a"
    and lb: "length (index_bufs ?s) = length (index_bufs st)"
    and b: "index_bufs ?s ! idx_buf (index_arrs st ! a) = index_bufs st ! idx_buf (index_arrs st ! a)"
    by simp_all
  from m have la: "length (index_arrs ?s) = length (index_arrs st)"
    by (rule map_eq_imp_length_eq)
  from rest have rest': "list_all (leaves_alone ?s a) ops"
    by (simp add: list_all_iff leaves_alone_cong [OF m Cons.prems(1)])
  from Cons.IH [of ?s] la n Cons.prems(1,2) rest'
  have "index_arrs (run_operations ops ?s) ! a = index_arrs ?s ! a
     \<and> length (index_arrs (run_operations ops ?s)) = length (index_arrs ?s)
     \<and> length (index_bufs (run_operations ops ?s)) = length (index_bufs ?s)
     \<and> index_bufs (run_operations ops ?s) ! idx_buf (index_arrs ?s ! a) =
         index_bufs ?s ! idx_buf (index_arrs ?s ! a)"
    by simp
  with la n lb b show ?case by (simp add: run_operations_def)
qed

lemma run_operations_bad_channel_data:
  assumes "a < length (index_arrs st)"
    and "\<not> idx_writeable (index_arrs st ! a)"
    and "list_all (leaves_alone st a) ops"
  shows "bad_channel_data (run_operations ops st) a = bad_channel_data st a"
  using run_operations_locked [OF assms] assms(1)
  by (simp add: bad_channel_data_def index_data_def)

lemma bad_channel_data_setflags:
  "bad_channel_data (setflags_readonly a st) b = bad_channel_data st b"
  by (cases "a < length (index_arrs st)")
     (auto simp: bad_channel_data_def index_data_def setflags_readonly_def nth_list_update)

lemma init_success:
  assumes "init kw rec bad sigma_um p st = (Inr stage, st')"
  shows "\<exists>a pr idx sigma w. bad = NdArray a \<and> rec_probe rec = Some pr \<and> si_units pr = ''um''
     \<and> a < length (index_arrs st) \<and> idx_buf (index_arrs st ! a) < length (index_bufs st)
     \<and> idx = index_data st (index_arrs st ! a)
     \<and> (case sigma_um of None \<Rightarrow> get_recommended_sigma_um (contact_positions pr)
          | Some s \<Rightarrow> Inr (Float s)) = Inr sigma
     \<and> kw (contact_positions pr) idx sigma p = Inr w
     \<and> st' = setflags_readonly a st
     \<and> stage = \<lparr>stage_segments = map (\<lambda>ps. InterpolateBadChannelsSegment ps a w)
                   (recording_segments rec),
                 bad_channel_indexes = a, kwargs_recording = rec, kwargs_p = p,
                 kwargs_sigma_um = sigma\<rparr>"
  using assms
  by (auto simp: init_def check_inputs_def calculate_weights_and_lock_channel_idxs_def
      bad_channel_data_def
      split: pyobj.splits option.splits if_splits sum.splits prod.splits)

lemma distinct_remdups_adj_sorted: "sorted xs \<Longrightarrow> distinct (remdups_adj xs)"
proof (induction xs rule: remdups_adj.induct)
  case (3 x y xs)
  then show ?case by (cases "x = y") (auto)
qed simp_all

lemma np_unique_sorted_list: "np_unique xs = sorted_list_of_set (set xs)"
proof (rule sorted_distinct_set_unique)
  show "sorted (np_unique xs)" by (simp add: np_unique_def)
  show "distinct (np_unique xs)" by (simp add: np_unique_def distinct_remdups_adj_sorted)
  show "set (np_unique xs) = set (sorted_list_of_set (set xs))" by (simp add: np_unique_def)
qed simp_all

lemma np_diff_nth: "np_diff u = map (\<lambda>i. u ! Suc i - u ! i) [0..<length u - 1]"
  by (rule nth_equalityI) (auto simp: np_diff_def nth_tl)

lemma np_diff_unique_gaps: "np_diff (np_unique ys) = spec_consecutive_gaps ys"
  by (simp add: np_diff_nth np_unique_sorted_list spec_consecutive_gaps_def Let_def)

lemma argmax_props:
  assumes "cs \<noteq> []"
  shows "argmax cs < length cs" "cs ! argmax cs = Max (set cs)"
    "\<forall>j<argmax cs. cs ! j \<noteq> Max (set cs)"
proof -
  let ?P = "\<lambda>c. c \<noteq> Max (set cs)"
  from assms have "Max (set cs) \<in> set cs" by (intro Max_in) auto
  then have "takeWhile ?P cs \<noteq> cs" by auto
  with length_takeWhile_le [of ?P cs] have "length (takeWhile ?P cs) \<noteq> length cs"
    by (metis takeWhile_eq_take take_all_iff order_refl)
  with length_takeWhile_le [of ?P cs] show lt: "argmax cs < length cs"
    by (simp add: argmax_def)
  from nth_length_takeWhile [of ?P cs] lt show "cs ! argmax cs = Max (set cs)"
    by (simp add: argmax_def)
  show "\<forall>j<argmax cs. cs ! j \<noteq> Max (set cs)"
  proof (intro allI impI)
    fix j assume j: "j < argmax cs"
    then have "takeWhile ?P cs ! j \<in> set (takeWhile ?P cs)" by (simp add: argmax_def)
    then have "?P (takeWhile ?P cs ! j)" by (rule set_takeWhileD [THEN conjunct2])
    with j show "cs ! j \<noteq> Max (set cs)" by (simp add: argmax_def takeWhile_nth)
  qed
qed

lemma stats_mode_correct:
  assumes "xs \<noteq> []"
  shows "\<exists>m. stats_mode xs = Float m \<and> spec_statistical_mode m xs
     \<and> (\<forall>x\<in>set xs. count_list xs x = count_list xs m \<longrightarrow> m \<le> x)"
proof -
  let ?vals = "np_unique xs"
  let ?cnts = "map (count_list xs) ?vals"
  let ?k = "argmax ?cnts"
  have sv: "set ?vals = set xs" and so: "sorted ?vals" and di: "distinct ?vals"
    by (simp_all add: np_unique_def distinct_remdups_adj_sorted)
  from assms sv have ne: "?cnts \<noteq> []" by auto
  note am = argmax_props [OF ne]
  from am(1) have k: "?k < length ?vals" by simp
  let ?m = "?vals ! ?k"
  have mode: "stats_mode xs = Float ?m"
    using assms by (simp add: stats_mode_def Let_def)
  from k sv have mem: "?m \<in> set xs" using nth_mem by blast
  from am(2) k have cm: "count_list xs ?m = Max (set ?cnts)" by simp
  have le: "count_list xs x \<le> count_list xs ?m" if "x \<in> set xs" for x
  proof -
    from that sv have "count_list xs x \<in> set ?cnts" by auto
    then show ?thesis unfolding cm by (intro Max_ge) auto
  qed
  have first: "?m \<le> x" if x: "x \<in> set xs" and c: "count_list xs x = count_list xs ?m" for x
  proof -
    from x sv have "x \<in> set ?vals" by simp
    then obtain j where j: "j < length ?vals" "?vals ! j = x"
      unfolding in_set_conv_nth by blast
    have "\<not> j < ?k"
    proof
      assume "j < ?k"
      with am(3) have "?cnts ! j \<noteq> Max (set ?cnts)" by blast
      with j c cm show False by simp
    qed
    then have "?k \<le> j" by simp
    with so j show ?thesis by (auto dest: sorted_nth_mono)
  qed
  from mode mem le first show ?thesis
    unfolding spec_statistical_mode_def by blast
qed

lemma regular_pitch_unique:
  assumes "set ys = (\<lambda>k. y0 + d * real k) ` {..<n}" "0 < d"
  shows "np_unique ys = map (\<lambda>k. y0 + d * real k) [0..<n]"
proof (rule sorted_distinct_set_unique)
  show "sorted (np_unique ys)" by (simp add: np_unique_def)
  show "distinct (np_unique ys)" by (simp add: np_unique_def distinct_remdups_adj_sorted)
  show "sorted (map (\<lambda>k. y0 + d * real k) [0..<n])"
    using assms(2) by (intro sorted_map_mono [where ?f = "\<lambda>k. y0 + d * real k"]) (auto simp: mono_on_def)
  show "distinct (map (\<lambda>k. y0 + d * real k) [0..<n])"
    using assms(2) by (auto simp: distinct_map inj_on_def)
  show "set (np_unique ys) = set (map (\<lambda>k. y0 + d * real k) [0..<n])"
    using assms(1) by (simp add: np_unique_def atLeast0LessThan)
qed

lemma regular_pitch_mode:
  assumes "set ys = (\<lambda>k. y0 + d * real k) ` {..<n}" "0 < d" "2 \<le> n"
  shows "stats_mode (np_diff (np_unique ys)) = Float d"
proof -
  have "np_diff (np_unique ys) = map (\<lambda>i. d) [0..<n - 1]"
    unfolding regular_pitch_unique [OF assms(1,2)] np_diff_nth
    by (auto simp: algebra_simps intro!: nth_equalityI)
  then have g: "np_diff (np_unique ys) = replicate (n - 1) d" by (simp add: map_replicate_const)
  with assms(3) have "np_diff (np_unique ys) \<noteq> []" by auto
  from stats_mode_correct [OF this] obtain m where
    "stats_mode (np_diff (np_unique ys)) = Float m" "m \<in> set (np_diff (np_unique ys))"
    unfolding spec_statistical_mode_def by blast
  then show ?thesis unfolding g by auto
qed

section \<open>Lemmas about the interpolation kernel\<close>

lemma raw_weight_pos: "0 < raw_weight positions sigma_um p b g"
  by (simp add: raw_weight_def kernel_weight_def)

lemma sum_list_pos_nonempty:
  "xs \<noteq> [] \<Longrightarrow> (\<And>x. x \<in> set xs \<Longrightarrow> 0 < f x) \<Longrightarrow> 0 < sum_list (map f xs :: real list)"
proof (induction xs)
  case Nil
  then show ?case by simp
next
  case (Cons a xs)
  have "0 \<le> sum_list (map f xs)"
    using Cons.prems(2) by (intro sum_list_nonneg) (auto intro: less_imp_le)
  moreover have "0 < f a" using Cons.prems(2) by simp
  ultimately show ?case by simp
qed

lemma sum_list_normalised:
  fixes f :: "'a \<Rightarrow> real"
  assumes "sum_list (map f xs) \<noteq> 0"
  shows "sum_list (map (\<lambda>x. f x / sum_list (map f xs)) xs) = 1"
proof -
  have "sum_list (map (\<lambda>x. f x / c) xs) = sum_list (map f xs) / c" for c
    by (induction xs) (simp_all add: add_divide_distrib)
  with assms show ?thesis by simp
qed

section \<open>Lemmas about the extension engine\<close>

lemma resolved_from_refl: "resolved_from reg visiting an an"
  by (simp add: resolved_from_def)

lemma with_default_params_cong:
  "extensions c n = extensions b n \<Longrightarrow> with_default_params reg n c = with_default_params reg n b"
  by (simp add: with_default_params_def)

lemma resolved_from_cached: "resolved_from reg visiting a b \<Longrightarrow> cached a n \<Longrightarrow> cached b n"
  by (simp add: resolved_from_def cached_def)

lemma resolved_from_weaken:
  "resolved_from reg (name # visiting) a b \<Longrightarrow> resolved_from reg visiting a b"
  by (simp add: resolved_from_def)

lemma resolved_from_trans:
  assumes ab: "resolved_from reg visiting a b" and bc: "resolved_from reg visiting b c"
  shows "resolved_from reg visiting a c"
  unfolding resolved_from_def
proof (intro conjI allI impI)
  fix n assume "cached a n"
  with ab have "extensions b n = extensions a n" "cached b n"
    by (simp_all add: resolved_from_def cached_def)
  with bc show "extensions c n = extensions a n" by (simp add: resolved_from_def)
next
  fix n assume na: "\<not> cached a n" and c: "cached c n"
  show "with_default_params reg n c"
  proof (cases "cached b n")
    case True
    with ab na have "with_default_params reg n b" by (simp add: resolved_from_def)
    moreover from bc True have "extensions c n = extensions b n" by (simp add: resolved_from_def)
    ultimately show ?thesis by (simp add: with_default_params_def)
  next
    case False
    with bc c show ?thesis by (simp add: resolved_from_def)
  qed
next
  fix n assume na: "\<not> cached a n" and c: "cached c n"
  show "n \<notin> set visiting"
  proof (cases "cached b n")
    case True
    with ab na show ?thesis by (simp add: resolved_from_def)
  next
    case False
    with bc c show ?thesis by (simp add: resolved_from_def)
  qed
next
  from ab bc show "unit_ids c = unit_ids a" "spikes c = spikes a"
    by (simp_all add: resolved_from_def)
qed

lemma split_bar_nonempty: "split_bar d \<noteq> []"
proof (induction d)
  case Nil
  show ?case by simp
next
  case (Cons c cs)
  then obtain w ws where "split_bar cs = w # ws" by (cases "split_bar cs") auto
  then show ?case by simp
qed

lemma first_alternative_in: "first_alternative d \<in> set (split_bar d)"
  using split_bar_nonempty [of d] by (cases "split_bar d") (auto simp: first_alternative_def)

lemma split_bar_plain: "CHR ''|'' \<notin> set d \<Longrightarrow> split_bar d = [d]"
proof (induction d)
  case Nil
  show ?case by simp
next
  case (Cons c cs)
  then have "split_bar cs = [cs]" and "c \<noteq> CHR ''|''" by auto
  then show ?case by simp
qed

lemma first_alternative_plain: "CHR ''|'' \<notin> set d \<Longrightarrow> first_alternative d = d"
  by (simp add: first_alternative_def split_bar_plain)

lemma store_extension_simps:
  "extensions (store_extension name cls ps an) n =
     (if n = name
      then Some \<lparr>ext_params = (case ps of None \<Rightarrow> default_params cls | Some q \<Rightarrow> q),
                ext_fields = algorithm cls (case ps of None \<Rightarrow> default_params cls | Some q \<Rightarrow> q)
                               (unit_ids an) (spikes an)\<rparr>
      else extensions an n)"
  "unit_ids (store_extension name cls ps an) = unit_ids an"
  "spikes (store_extension name cls ps an) = spikes an"
  by (simp_all add: store_extension_def Let_def)

lemma resolution_invariant:
  shows "compute_extension reg visiting name ps an = Inr an' \<Longrightarrow>
       (\<exists>cls an1. map_of reg name = Some cls \<and> name \<notin> set visiting
          \<and> resolved_from reg (name # visiting) an an1
          \<and> (\<forall>d\<in>set (depend_on cls). list_ex (cached an1) (split_bar d))
          \<and> an' = store_extension name cls ps an1)"
    and "ensure_dependencies reg visiting ds an = Inr an' \<Longrightarrow>
       resolved_from reg visiting an an' \<and> (\<forall>d\<in>set ds. list_ex (cached an') (split_bar d))"
proof (induction reg visiting name ps an and reg visiting ds an arbitrary: an' and an'
    rule: compute_extension_ensure_dependencies.induct)
  case (1 reg visiting name ps an)
  from "1.prems" obtain cls an1 where
    nv: "name \<notin> set visiting" and cls: "map_of reg name = Some cls"
    and e: "ensure_dependencies reg (name # visiting) (depend_on cls) an = Inr an1"
    and an': "an' = store_extension name cls ps an1"
    by (auto simp: compute_extension.simps split: if_splits option.splits sum.splits)
  from "1.IH" [OF nv cls e] cls nv an' show ?case by blast
next
  case (2 reg visiting an)
  then show ?case by (simp add: resolved_from_refl)
next
  case (3 reg visiting d ds an)
  show ?case
  proof (cases "list_ex (cached an) (split_bar d)")
    case True
    with "3.prems" have e: "ensure_dependencies reg visiting ds an = Inr an'" by simp
    from "3.IH"(1) [OF True e] have r: "resolved_from reg visiting an an'"
      and s: "\<forall>d\<in>set ds. list_ex (cached an') (split_bar d)" by simp_all
    from True r have "list_ex (cached an') (split_bar d)"
      unfolding list_ex_iff by (blast intro: resolved_from_cached)
    with r s show ?thesis by simp
  next
    case False
    with "3.prems" obtain an1 where
      c: "compute_extension reg visiting (first_alternative d) None an = Inr an1"
      and e: "ensure_dependencies reg visiting ds an1 = Inr an'"
      by (auto split: sum.splits)
    from "3.IH"(2) [OF False c] obtain cls an0 where
      cls: "map_of reg (first_alternative d) = Some cls"
      and nv: "first_alternative d \<notin> set visiting"
      and r0': "resolved_from reg (first_alternative d # visiting) an an0"
      and an1: "an1 = store_extension (first_alternative d) cls None an0"
      by blast
    from r0' have r0: "resolved_from reg visiting an an0" by (rule resolved_from_weaken)
    from False first_alternative_in [of d] have nc: "\<not> cached an (first_alternative d)"
      by (auto simp: list_ex_iff)
    have r1: "resolved_from reg visiting an an1"
      unfolding resolved_from_def
    proof (intro conjI allI impI)
      fix n assume n: "cached an n"
      with nc have "n \<noteq> first_alternative d" by auto
      then have "extensions an1 n = extensions an0 n" by (simp add: an1 store_extension_simps)
      with r0 n show "extensions an1 n = extensions an n" by (simp add: resolved_from_def)
    next
      fix n assume n: "\<not> cached an n" and c: "cached an1 n"
      show "with_default_params reg n an1"
      proof (cases "n = first_alternative d")
        case True
        with cls show ?thesis
          by (simp add: an1 with_default_params_def store_extension_simps)
      next
        case False
        then have eq: "extensions an1 n = extensions an0 n" by (simp add: an1 store_extension_simps)
        with c have "cached an0 n" by (simp add: cached_def)
        with r0 n have "with_default_params reg n an0" by (simp add: resolved_from_def)
        with eq show ?thesis by (simp add: with_default_params_def)
      qed
    next
      fix n assume n: "\<not> cached an n" and c: "cached an1 n"
      show "n \<notin> set visiting"
      proof (cases "n = first_alternative d")
        case True
        with nv show ?thesis by simp
      next
        case False
        then have "extensions an1 n = extensions an0 n" by (simp add: an1 store_extension_simps)
        with c have "cached an0 n" by (simp add: cached_def)
        with r0 n show ?thesis by (simp add: resolved_from_def)
      qed
    next
      from r0 show "unit_ids an1 = unit_ids an" "spikes an1 = spikes an"
        by (simp_all add: an1 store_extension_simps resolved_from_def)
    qed
    from "3.IH"(3) [OF False c e] have r2: "resolved_from reg visiting an1 an'"
      and s: "\<forall>d\<in>set ds. list_ex (cached an') (split_bar d)" by simp_all
    have "cached an1 (first_alternative d)"
      by (simp add: an1 cached_def store_extension_simps)
    with r2 have "cached an' (first_alternative d)"
      by (rule resolved_from_cached)
    with first_alternative_in [of d] have "list_ex (cached an') (split_bar d)"
      unfolding list_ex_iff by blast
    with resolved_from_trans [OF r1 r2] s show ?thesis by simp
  qed
qed

lemma compute_result:
  assumes "compute reg name ps an = Inr an'"
  shows "\<exists>cls an1. map_of reg name = Some cls
     \<and> resolved_from reg [name] an an1
     \<and> (\<forall>d\<in>set (depend_on cls). list_ex (cached an1) (split_bar d))
     \<and> an' = store_extension name cls ps an1"
  using resolution_invariant(1) [of reg "[]" name ps an an'] assms
  by (auto simp: compute_def)

lemma ensure_one_dependency:
  assumes "ensure_dependencies reg visiting [d] a0 = Inr a1"
  shows "if list_ex (cached a0) (split_bar d) then a1 = a0
     else cached a1 (first_alternative d) \<and> with_default_params reg (first_alternative d) a1"
proof (cases "list_ex (cached a0) (split_bar d)")
  case True
  with assms show ?thesis by simp
next
  case False
  with assms have c: "compute_extension reg visiting (first_alternative d) None a0 = Inr a1"
    by (auto split: sum.splits)
  from resolution_invariant(1) [OF c] obtain cls an1 where
    "map_of reg (first_alternative d) = Some cls"
    "a1 = store_extension (first_alternative d) cls None an1" by blast
  then have "cached a1 (first_alternative d) \<and> with_default_params reg (first_alternative d) a1"
    by (simp add: cached_def with_default_params_def store_extension_simps)
  with False show ?thesis by simp
qed

lemma compute_default:
  assumes "compute reg name None an = Inr an'"
  shows "cached an' name \<and> with_default_params reg name an'
     \<and> (\<forall>n. n \<noteq> name \<longrightarrow> cached an n \<longrightarrow> extensions an' n = extensions an n)"
proof -
  from compute_result [OF assms] obtain cls an1 where
    cls: "map_of reg name = Some cls" and r: "resolved_from reg [name] an an1"
    and an': "an' = store_extension name cls None an1" by blast
  have "extensions an' n = extensions an n" if "n \<noteq> name" "cached an n" for n
    using that r by (simp add: an' store_extension_simps resolved_from_def)
  with cls show ?thesis
    by (simp add: an' cached_def with_default_params_def store_extension_simps)
qed

lemma dependency_name_first:
  "(if CHR ''|'' \<in> set d then first_alternative d else d) = first_alternative d"
  by (simp add: first_alternative_plain)

lemma compute_dependencies_default:
  assumes "compute_dependencies reg ds an = Inr an'"
    and "\<forall>n\<in>S. cached an n \<and> with_default_params reg n an"
  shows "\<forall>n\<in>S \<union> first_alternative ` set ds. cached an' n \<and> with_default_params reg n an'"
  using assms
proof (induction ds arbitrary: an S)
  case Nil
  then show ?case by simp
next
  case (Cons d ds)
  from Cons.prems(1) obtain an1 where
    c: "compute reg (first_alternative d) None an = Inr an1"
    and rest: "compute_dependencies reg ds an1 = Inr an'"
    by (auto simp: dependency_name_first split: sum.splits)
  note cd = compute_default [OF c]
  have "\<forall>n\<in>insert (first_alternative d) S. cached an1 n \<and> with_default_params reg n an1"
  proof
    fix n assume n: "n \<in> insert (first_alternative d) S"
    show "cached an1 n \<and> with_default_params reg n an1"
    proof (cases "n = first_alternative d")
      case True
      with cd show ?thesis by simp
    next
      case False
      with n Cons.prems(2) have "cached an n" "with_default_params reg n an" by auto
      moreover from this False cd have "extensions an1 n = extensions an n" by simp
      ultimately show ?thesis by (simp add: cached_def with_default_params_def)
    qed
  qed
  from Cons.IH [OF rest this] show ?case by auto
qed

lemma prepare_sorting_analyzer_default:
  assumes "prepare_sorting_analyzer reg units spks cls = Inr an"
    and "d \<in> set (depend_on cls)"
  shows "cached an (first_alternative d) \<and> with_default_params reg (first_alternative d) an"
proof -
  from assms(1) obtain an0 where
    "compute_dependencies reg (depend_on cls) an0 = Inr an"
    by (auto simp: prepare_sorting_analyzer_def split: sum.splits)
  from compute_dependencies_default [OF this, of "{}"] assms(2) show ?thesis by auto
qed

lemma compute_dependency_present:
  assumes c: "compute reg E ps an = Inr an'" and cls: "map_of reg E = Some cls"
    and d: "d \<in> set (depend_on cls)"
  shows "list_ex (cached an') (split_bar d)"
    and "CHR ''|'' \<notin> set d \<and> \<not> cached an d \<longrightarrow> cached an' d \<and> with_default_params reg d an'"
    and "\<forall>n. n \<noteq> E \<and> \<not> cached an n \<and> cached an' n \<longrightarrow> with_default_params reg n an'"
    and "\<forall>n. n \<noteq> E \<and> cached an n \<longrightarrow> extensions an' n = extensions an n"
proof -
  from compute_result [OF c] cls obtain an1 where
    r: "resolved_from reg [E] an an1"
    and s: "\<forall>d\<in>set (depend_on cls). list_ex (cached an1) (split_bar d)"
    and an': "an' = store_extension E cls ps an1" by auto
  have up: "cached an1 n \<Longrightarrow> cached an' n" for n
    by (simp add: an' cached_def store_extension_simps)
  have same: "n \<noteq> E \<Longrightarrow> extensions an' n = extensions an1 n" for n
    by (simp add: an' store_extension_simps)
  from d s have "list_ex (cached an1) (split_bar d)" by blast
  then show "list_ex (cached an') (split_bar d)" unfolding list_ex_iff using up by blast
  show "CHR ''|'' \<notin> set d \<and> \<not> cached an d \<longrightarrow> cached an' d \<and> with_default_params reg d an'"
  proof
    assume p: "CHR ''|'' \<notin> set d \<and> \<not> cached an d"
    from d s p have c1: "cached an1 d" by (auto simp: split_bar_plain)
    with r p have wd: "with_default_params reg d an1" and "d \<noteq> E"
      by (auto simp: resolved_from_def)
    with same [of d] c1 show "cached an' d \<and> with_default_params reg d an'"
      by (simp add: cached_def with_default_params_def)
  qed
  show "\<forall>n. n \<noteq> E \<and> \<not> cached an n \<and> cached an' n \<longrightarrow> with_default_params reg n an'"
  proof (intro allI impI)
    fix n assume n: "n \<noteq> E \<and> \<not> cached an n \<and> cached an' n"
    with same [of n] have "cached an1 n" by (simp add: cached_def)
    with r n have "with_default_params reg n an1" by (simp add: resolved_from_def)
    with same [of n] n show "with_default_params reg n an'" by (simp add: with_default_params_def)
  qed
  show "\<forall>n. n \<noteq> E \<and> cached an n \<longrightarrow> extensions an' n = extensions an n"
    using r same by (simp add: resolved_from_def)
qed

section \<open>Lemmas about the projection\<close>

lemma index_of_nth: "distinct ids \<Longrightarrow> i < length ids \<Longrightarrow> index_of (ids ! i) ids = Some i"
proof (induction ids arbitrary: i)
  case Nil
  then show ?case by simp
next
  case (Cons v vs)
  show ?case
  proof (cases i)
    case 0
    then show ?thesis by simp
  next
    case (Suc j)
    with Cons.prems have "vs ! j \<noteq> v" "index_of (vs ! j) vs = Some j"
      by (auto simp: Cons.IH)
    with Suc show ?thesis by simp
  qed
qed

lemma map_filter_all:
  "(\<And>x. x \<in> set xs \<Longrightarrow> f x = Some (g x)) \<Longrightarrow> List.map_filter f xs = map g xs"
  by (induction xs) (simp_all add: List.map_filter_simps)

lemma every_second_subset: "set (every_second xs) \<subseteq> set xs"
  by (induction xs rule: every_second.induct) auto

lemma select_spikes_all:
  assumes "distinct ids" "list_all (\<lambda>sp. unit_index sp < length ids) spks"
  shows "select_spikes ids ids spks = spks"
proof -
  have "map_option (\<lambda>k. sp\<lparr>unit_index := k\<rparr>) (new_unit_index ids ids sp) = Some sp"
    if "sp \<in> set spks" for sp
    using that assms by (simp add: new_unit_index_def list_all_iff index_of_nth)
  then have "select_spikes ids ids spks = map (\<lambda>sp. sp) spks"
    unfolding select_spikes_def by (rule map_filter_all)
  then show ?thesis by simp
qed

lemma select_field_all:
  assumes d: "distinct (unit_ids an)"
    and s: "list_all (\<lambda>sp. unit_index sp < length (unit_ids an)) (spikes an)"
    and w: "wf_field an fld"
  shows "select_field (unit_ids an) (unit_ids an) (spikes an) fld = fld"
proof (cases fld)
  case (PerUnit xs)
  with w have l: "length xs = length (unit_ids an)" by (simp add: wf_field_def)
  have "(case index_of u (unit_ids an) of None \<Rightarrow> None
         | Some i \<Rightarrow> if i < length xs then Some (xs ! i) else None)
        = Some (xs ! the (index_of u (unit_ids an)))" if "u \<in> set (unit_ids an)" for u
  proof -
    from that obtain i where "i < length (unit_ids an)" "unit_ids an ! i = u"
      by (auto simp: in_set_conv_nth)
    with index_of_nth [OF d, of i] l show ?thesis by auto
  qed
  then have "List.map_filter
            (\<lambda>u. case index_of u (unit_ids an) of
                    None \<Rightarrow> None
                  | Some i \<Rightarrow> if i < length xs then Some (xs ! i) else None) (unit_ids an)
       = map (\<lambda>u. xs ! the (index_of u (unit_ids an))) (unit_ids an)"
    by (rule map_filter_all)
  also have "\<dots> = xs"
    using l by (auto simp: index_of_nth [OF d] intro!: nth_equalityI)
  finally show ?thesis by (simp add: select_field_def PerUnit)
next
  case (PerSpike xs)
  have "new_unit_index (unit_ids an) (unit_ids an) sp \<noteq> None" if "sp \<in> set (spikes an)" for sp
    using that s d by (simp add: new_unit_index_def list_all_iff index_of_nth)
  then have "filter (\<lambda>(sp, x). new_unit_index (unit_ids an) (unit_ids an) sp \<noteq> None)
      (zip (spikes an) xs) = zip (spikes an) xs"
    by (auto simp: filter_id_conv dest: set_zip_leftD)
  moreover from w PerSpike have "length xs = length (spikes an)" by (simp add: wf_field_def)
  ultimately show ?thesis by (simp add: select_field_def PerSpike)
qed

lemma select_result_all:
  assumes d: "distinct (unit_ids an)"
    and s: "list_all (\<lambda>sp. unit_index sp < length (unit_ids an)) (spikes an)"
    and w: "list_all (\<lambda>(f, fld). wf_field an fld) (ext_fields r)"
  shows "select_result (unit_ids an) (unit_ids an) (spikes an) r = r"
proof -
  have "map (\<lambda>(name, fld). (name, select_field (unit_ids an) (unit_ids an) (spikes an) fld))
      (ext_fields r) = map (\<lambda>x. x) (ext_fields r)"
    using w by (intro map_cong refl) (auto simp: list_all_iff select_field_all [OF d s])
  then show ?thesis by (simp add: select_result_def)
qed

section \<open>The example, evaluated\<close>

lemma example_get_traces:
  "get_traces (InterpolateBadChannelsSegment (NumpySegment 0) 0 example_weights) 0 3 AllChannels
     example_store =
   (Inr (View 1 0 3),
    \<lparr>trace_bufs = [\<lparr>dtype = FloatType, ncols = 2, arows = [[1, 2], [3, 4], [5, 6]]\<rparr>,
                   \<lparr>dtype = FloatType, ncols = 2, arows = [[1, 1], [3, 3], [5, 5]]\<rparr>],
     index_bufs = [[1]],
     index_arrs = [\<lparr>idx_buf = 0, idx_offset = 0, idx_length = 1,
                    idx_writeable = False, idx_base = None\<rparr>]\<rparr>)"
  by (simp add: example_store_def example_weights_def Let_def
      np_copy_def matmul_def bad_channel_data_def setitem_columns_def norm_index_def
      broadcast_def assign_row_def column_def dot_def cast_to_def index_data_def)

lemma example_wf:
  "wf_segment example_store (InterpolateBadChannelsSegment (NumpySegment 0) 0 example_weights)"
  "wf_store example_store"
  "wf_segment example_store (NumpySegment 0)"
  by (simp_all add: example_store_def wf_store_def rectangular_def)

lemma example_parent_pull:
  "pull (NumpySegment 0) 0 3 AllChannels example_store =
     Inr \<lparr>dtype = FloatType, ncols = 2, arows = [[1, 2], [3, 4], [5, 6]]\<rparr>"
  by (simp add: pull_def example_store_def)

lemma example_sigma:
  "get_recommended_sigma_um \<lparr>dtype = FloatType, ncols = 2, arows = [[0, 0], [0, 20], [0, 40], [0, 60]]\<rparr> = Inr (Float 20)"
  by (simp add: get_recommended_sigma_um_def column_def np_unique_def np_diff_def
      stats_mode_def argmax_def Let_def)

lemma example_init:
  "init example_kriging example_recording (NdArray 0) None (13 / 10) example_store4 =
     (Inr \<lparr>stage_segments =
             [InterpolateBadChannelsSegment (NumpySegment 0) 0
                \<lparr>dtype = FloatType, ncols = 1, arows = [[0], [0], [1], [0]]\<rparr>],
           bad_channel_indexes = 0,
           kwargs_recording = example_recording,
           kwargs_p = 13 / 10,
           kwargs_sigma_um = Float 20\<rparr>,
      \<lparr>trace_bufs = [\<lparr>dtype = FloatType, ncols = 4, arows = [[1, 2, 3, 4]]\<rparr>],
       index_bufs = [[3]],
       index_arrs = [\<lparr>idx_buf = 0, idx_offset = 0, idx_length = 1,
                      idx_writeable = False, idx_base = None\<rparr>]\<rparr>)"
  by (simp add: init_def check_inputs_def example_recording_def example_probe_def
      example_sigma calculate_weights_and_lock_channel_idxs_def bad_channel_data_def
      example_store4_def example_kriging_def setflags_readonly_def index_data_def)

lemma example_init_any:
  "0 < length (index_arrs st) \<Longrightarrow> idx_buf (index_arrs st ! 0) < length (index_bufs st) \<Longrightarrow>
   init example_kriging example_recording (NdArray 0) None (13 / 10) st =
     (Inr \<lparr>stage_segments = [example_stage_segment],
           bad_channel_indexes = 0,
           kwargs_recording = example_recording,
           kwargs_p = 13 / 10,
           kwargs_sigma_um = Float 20\<rparr>,
      setflags_readonly 0 st)"
  by (simp add: init_def check_inputs_def example_recording_def example_probe_def
      example_sigma calculate_weights_and_lock_channel_idxs_def bad_channel_data_def
      example_kriging_def example_stage_segment_def)

lemma example_stage_pull:
  "trace_bufs st = [\<lparr>dtype = FloatType, ncols = 4, arows = [[1, 2, 3, 4]]\<rparr>] \<Longrightarrow>
   bad_channel_data st 0 = Inr [j] \<Longrightarrow> 0 \<le> j \<Longrightarrow> j < 4 \<Longrightarrow>
   pull example_stage_segment 0 1 AllChannels st =
     Inr \<lparr>dtype = FloatType, ncols = 4, arows = [[1, 2, 3, 4][nat j := 3]]\<rparr>"
  by (simp add: example_stage_segment_def pull_interp pull_numpy_all matmul_def column_def
      dot_def setitem_columns_def norm_index_def broadcast_def assign_row_def cast_to_def)

lemma example_split: "split_bar ''waveforms|random_spikes'' = [''waveforms'', ''random_spikes'']"
  by simp

lemma example_select:
  "select_units example_analyzer [6, 4] =
     Some \<lparr>unit_ids = [6, 4],
           spikes = [\<lparr>sample_index = 10, unit_index = 1, segment_index = 0\<rparr>,
                     \<lparr>sample_index = 25, unit_index = 0, segment_index = 0\<rparr>],
           extensions = [''templates'' \<mapsto>
             \<lparr>ext_params = [(''ms_before'', 1)], ext_fields = [(''average'', PerUnit [3, 1])]\<rparr>]\<rparr>"
  by (auto simp: select_units_def example_analyzer_def example_spikes_def select_spikes_def
      new_unit_index_def List.map_filter_simps select_result_def select_field_def)

lemma example_analyzer_wf: "wf_analyzer example_analyzer"
  by (simp add: wf_analyzer_def example_analyzer_def example_spikes_def wf_field_def)

lemma example_map_of:
  "map_of example_registry ''templates'' = Some example_templates_class"
  by (simp add: example_registry_def example_templates_class_def)

lemma example_ensure:
  "\<exists>a1. ensure_dependencies example_registry [] [''waveforms|random_spikes'']
       (get_sorting_analyzer [4, 5, 6] example_spikes) = Inr a1"
  by (simp add: compute_extension.simps example_registry_def store_extension_def
      cached_def get_sorting_analyzer_def first_alternative_def)

section \<open>Theorems\<close>

text \<open>
  C1 (fails on the code). The claim: a pull with a channel selection returns an array of
  shape \<open>(end - start, len(channel_selection))\<close>. The interpolation segment does not look
  at \<open>channel_indices\<close>: on a two-channel segment the pull of frames \<open>0..<1\<close> with the
  selection \<open>[0]\<close> returns both channels, shape \<open>(1, 2)\<close>, where the claim says \<open>(1, 1)\<close>.
\<close>

theorem get_traces_ignores_channel_indices:
  "map_sum id shape (pull example_segment 0 1 (Channels [0]) example_store) = Inr (1, 2)
   \<and> map_sum id shape (pull example_segment 0 1 (Channels [0]) example_store)
       \<noteq> Inr (1 - 0, length [0 :: int])"
  by (simp add: pull_def example_segment_def example_store_def example_weights_def
      np_copy_def matmul_def bad_channel_data_def index_data_def setitem_columns_def norm_index_def
      broadcast_def assign_row_def shape_def column_def dot_def)

text \<open>
  C2. A pull through an interpolation segment writes to no array that existed before it:
  every buffer of the store, the parent's among them, and every index array with its
  memory is as it was.
  The array that the parent returned to the segment shows after the pull what it showed
  when it was returned, and the parent's next pull over the same range returns the values
  of its first one.
\<close>

theorem get_traces_leaves_parent_untouched:
  assumes wf: "wf_segment st (InterpolateBadChannelsSegment parent b w)"
    and child: "get_traces (InterpolateBadChannelsSegment parent b w) s e cs st = (r, st')"
  shows "(\<forall>a<length (trace_bufs st). trace_bufs st' ! a = trace_bufs st ! a)
     \<and> index_arrs st' = index_arrs st
     \<and> index_bufs st' = index_bufs st
     \<and> pull parent s e AllChannels st' = pull parent s e AllChannels st
     \<and> (\<forall>v st1. get_traces parent s e AllChannels st = (Inr v, st1) \<longrightarrow>
          deref st' v = deref st1 v \<and> pull parent s e AllChannels st' = Inr (deref st1 v))"
proof -
  let ?seg = "InterpolateBadChannelsSegment parent b w"
  from get_traces_frame [of ?seg s e cs st] child
  obtain ext where ext: "trace_bufs st' = trace_bufs st @ ext" and ia: "index_arrs st' = index_arrs st"
    and ib: "index_bufs st' = index_bufs st"
    by auto
  from wf have wfp: "wf_segment st parent" by simp
  have same: "pull parent s e AllChannels st' = pull parent s e AllChannels st"
    using wfp ext ia ib by (rule pull_extend)
  have untouched: "\<forall>a<length (trace_bufs st). trace_bufs st' ! a = trace_bufs st ! a"
    using ext by (simp add: nth_append)
  have returned: "deref st' v = deref st1 v \<and> pull parent s e AllChannels st' = Inr (deref st1 v)"
    if pv: "get_traces parent s e AllChannels st = (Inr v, st1)" for v st1
  proof -
    obtain a lo hi where v: "v = View a lo hi" by (cases v)
    from get_traces_ref_valid [OF wfp] pv v have a: "a < length (trace_bufs st1)" by simp
    from get_traces_interp [OF pv, of b w cs] child
    obtain ext1 where "trace_bufs st' = trace_bufs st1 @ ext1"
      by (auto simp: np_copy_store split: sum.splits)
    with a have "deref st' v = deref st1 v" unfolding v by (intro deref_extend)
    moreover have "pull parent s e AllChannels st = Inr (deref st1 v)"
      by (simp add: pull_def pv)
    ultimately show ?thesis using same by simp
  qed
  from untouched ia ib same returned show ?thesis by blast
qed


theorem get_traces_leaves_parent_untouched_witness:
  "wf_segment example_store (InterpolateBadChannelsSegment (NumpySegment 0) 0 example_weights)
   \<and> get_traces (InterpolateBadChannelsSegment (NumpySegment 0) 0 example_weights) 0 3
        AllChannels example_store =
       (Inr (View 1 0 3),
        \<lparr>trace_bufs = [\<lparr>dtype = FloatType, ncols = 2, arows = [[1, 2], [3, 4], [5, 6]]\<rparr>,
                       \<lparr>dtype = FloatType, ncols = 2, arows = [[1, 1], [3, 3], [5, 5]]\<rparr>],
         index_bufs = [[1]],
         index_arrs = [\<lparr>idx_buf = 0, idx_offset = 0, idx_length = 1,
                        idx_writeable = False, idx_base = None\<rparr>]\<rparr>)
   \<and> pull (NumpySegment 0) 0 3 AllChannels
        \<lparr>trace_bufs = [\<lparr>dtype = FloatType, ncols = 2, arows = [[1, 2], [3, 4], [5, 6]]\<rparr>,
                       \<lparr>dtype = FloatType, ncols = 2, arows = [[1, 1], [3, 3], [5, 5]]\<rparr>],
         index_bufs = [[1]],
         index_arrs = [\<lparr>idx_buf = 0, idx_offset = 0, idx_length = 1,
                        idx_writeable = False, idx_base = None\<rparr>]\<rparr> =
      Inr \<lparr>dtype = FloatType, ncols = 2, arows = [[1, 2], [3, 4], [5, 6]]\<rparr>"
proof -
  note get_traces_leaves_parent_untouched [OF example_wf(1) example_get_traces]
  then have "pull (NumpySegment 0) 0 3 AllChannels
        \<lparr>trace_bufs = [\<lparr>dtype = FloatType, ncols = 2, arows = [[1, 2], [3, 4], [5, 6]]\<rparr>,
                       \<lparr>dtype = FloatType, ncols = 2, arows = [[1, 1], [3, 3], [5, 5]]\<rparr>],
         index_bufs = [[1]],
         index_arrs = [\<lparr>idx_buf = 0, idx_offset = 0, idx_length = 1,
                        idx_writeable = False, idx_base = None\<rparr>]\<rparr> =
      pull (NumpySegment 0) 0 3 AllChannels example_store"
    by blast
  with example_wf(1) example_get_traces example_parent_pull show ?thesis by simp
qed

text \<open>
  C6. Let \<open>t\<close> be what the parent returns for the frame range, in a store and on a
  chain whose arrays are rectangular; let the bad-channel indices be in bounds for the
  channels of \<open>t\<close>, and let the weights have one row per channel and one column per bad
  channel. Then the pull returns an array of the shape and of the element type of \<open>t\<close>,
  whatever channel selection it is given; every column that is not at a bad-channel
  index is the column of \<open>t\<close>; and the column at the \<open>k\<close>-th bad-channel index is the
  \<open>k\<close>-th column of the matrix product \<open>t @ weights\<close> cast to the element type of \<open>t\<close>, for
  every \<open>k\<close> when the indices name different channels, and in general for every \<open>k\<close>
  whose index is not repeated later in the index array (numpy keeps the last assignment
  to a repeated index). When \<open>t\<close> is a float array the cast changes nothing, and the
  column is the column of the product itself. When \<open>t\<close> is an integer array it is not:
  the product is a float array, and storing it into the copy of \<open>t\<close> drops the fractions.
\<close>

theorem get_traces_interpolates_bad_columns:
  assumes st: "wf_store st"
    and wfp: "wf_segment st parent"
    and parent: "pull parent s e AllChannels st = Inr t"
    and bad: "bad_channel_data st b = Inr idx"
    and inb: "norm_indices (ncols t) idx = Some js"
    and w: "shape w = (ncols t, length idx)"
  shows "\<exists>r p. pull (InterpolateBadChannelsSegment parent b w) s e cs st = Inr r
     \<and> matmul t w = Inr p
     \<and> shape r = shape t
     \<and> dtype r = dtype t
     \<and> (distinct js \<longrightarrow>
          (\<forall>k<length js. column r (js ! k) = map (cast_to (dtype t)) (column p k)))
     \<and> (\<forall>k<length js. js ! k \<notin> set (drop (Suc k) js) \<longrightarrow>
          column r (js ! k) = map (cast_to (dtype t)) (column p k))
     \<and> (dtype t = FloatType \<longrightarrow>
          (distinct js \<longrightarrow> (\<forall>k<length js. column r (js ! k) = column p k))
          \<and> (\<forall>k<length js. js ! k \<notin> set (drop (Suc k) js) \<longrightarrow> column r (js ! k) = column p k))
     \<and> (\<forall>c<ncols t. c \<notin> set js \<longrightarrow> column r c = column t c)"
proof -
  from w have wr: "length (arows w) = ncols t" and wc: "ncols w = length idx"
    by (simp_all add: shape_def)
  then obtain p where p: "matmul t w = Inr p" by (simp add: matmul_def)
  from matmul_shape [OF p] wc
  have pc: "ncols p = length idx" and pl: "length (arows p) = length (arows t)" and pr: "rectangular p"
    by simp_all
  let ?r = "t\<lparr>arows := map2 (\<lambda>r pr. assign_row js
                                     (map (cast_to (dtype t)) (broadcast (length js) pr)) r)
                   (arows t) (arows p)\<rparr>"
  have r: "pull (InterpolateBadChannelsSegment parent b w) s e cs st = Inr ?r"
    by (simp add: pull_interp parent p bad setitem_columns_exact [OF pl pc inb])
  have rt: "rectangular t" using st wfp parent by (rule pull_rectangular)
  have lj: "length js = length idx" using inb by (rule norm_indices_length)
  have bound: "\<forall>j\<in>set js. j < ncols t" using norm_indices_bound [OF inb] by blast
  have sh: "shape ?r = shape t" using pl by (simp add: shape_def)
  have dt: "dtype ?r = dtype t" by simp
  have last: "\<forall>k<length js. js ! k \<notin> set (drop (Suc k) js) \<longrightarrow>
      column ?r (js ! k) = map (cast_to (dtype t)) (column p k)"
    using column_setitem_hit [OF rt pr pl _ bound] pc lj by simp
  have dist: "distinct js \<longrightarrow>
      (\<forall>k<length js. column ?r (js ! k) = map (cast_to (dtype t)) (column p k))"
    using last distinct_last_occurrence by blast
  have fl: "dtype t = FloatType \<longrightarrow>
      (distinct js \<longrightarrow> (\<forall>k<length js. column ?r (js ! k) = column p k))
      \<and> (\<forall>k<length js. js ! k \<notin> set (drop (Suc k) js) \<longrightarrow> column ?r (js ! k) = column p k)"
  proof
    assume "dtype t = FloatType"
    then have "map (cast_to (dtype t)) (column p k) = column p k" for k
      by (simp add: cast_to_float)
    with last dist
    show "(distinct js \<longrightarrow> (\<forall>k<length js. column ?r (js ! k) = column p k))
      \<and> (\<forall>k<length js. js ! k \<notin> set (drop (Suc k) js) \<longrightarrow> column ?r (js ! k) = column p k)"
      by metis
  qed
  have other: "\<forall>c<ncols t. c \<notin> set js \<longrightarrow> column ?r c = column t c"
    using column_setitem_other [OF pl] by blast
  from r p sh dt dist last fl other show ?thesis by blast
qed

theorem get_traces_interpolates_bad_columns_witness:
  "wf_store example_store
   \<and> wf_segment example_store (NumpySegment 0)
   \<and> pull (NumpySegment 0) 0 3 AllChannels example_store =
       Inr \<lparr>dtype = FloatType, ncols = 2, arows = [[1, 2], [3, 4], [5, 6]]\<rparr>
   \<and> bad_channel_data example_store 0 = Inr [1]
   \<and> norm_indices 2 [1] = Some [1]
   \<and> shape example_weights = (2, 1)
   \<and> (\<exists>r p. pull (InterpolateBadChannelsSegment (NumpySegment 0) 0 example_weights) 0 3
               (Channels [0]) example_store = Inr r
          \<and> matmul \<lparr>dtype = FloatType, ncols = 2, arows = [[1, 2], [3, 4], [5, 6]]\<rparr> example_weights = Inr p
          \<and> shape r = (3, 2)
          \<and> dtype r = FloatType
          \<and> column r 1 = column p 0
          \<and> column r 0 = [1, 3, 5])"
proof -
  let ?t = "\<lparr>dtype = FloatType, ncols = 2, arows = [[1, 2], [3, 4], [5, 6]]\<rparr> :: array2"
  have b: "bad_channel_data example_store 0 = Inr [1]"
    by (simp add: bad_channel_data_def index_data_def example_store_def)
  have n: "norm_indices (ncols ?t) [1] = Some [1]" by (simp add: norm_index_def)
  have w: "shape example_weights = (ncols ?t, length [1::int])"
    by (simp add: shape_def example_weights_def)
  from get_traces_interpolates_bad_columns [OF example_wf(2) example_wf(3) example_parent_pull b n w,
      of "Channels [0]"]
  obtain r p where
    "pull (InterpolateBadChannelsSegment (NumpySegment 0) 0 example_weights) 0 3
       (Channels [0]) example_store = Inr r"
    "matmul ?t example_weights = Inr p" "shape r = shape ?t" "dtype r = dtype ?t"
    "dtype ?t = FloatType \<longrightarrow>
       (distinct [1::nat] \<longrightarrow> (\<forall>k<length [1::nat]. column r ([1] ! k) = column p k))
       \<and> (\<forall>k<length [1::nat]. [1::nat] ! k \<notin> set (drop (Suc k) [1]) \<longrightarrow>
            column r ([1] ! k) = column p k)"
    "\<forall>c<ncols ?t. c \<notin> set [1::nat] \<longrightarrow> column r c = column ?t c"
    by blast
  then have "pull (InterpolateBadChannelsSegment (NumpySegment 0) 0 example_weights) 0 3
       (Channels [0]) example_store = Inr r
     \<and> matmul ?t example_weights = Inr p \<and> shape r = (3, 2) \<and> dtype r = FloatType
     \<and> column r 1 = column p 0 \<and> column r 0 = [1, 3, 5]"
    by (simp add: shape_def column_def)
  then show ?thesis using example_wf(2) example_wf(3) example_parent_pull b n w by auto
qed

text \<open>
  On an \<open>int16\<close> parent the bad column is not the column of the product: for the frames
  \<open>[[1, 2], [3, 4], [5, 6]]\<close>, bad channel 1 and the weights \<open>[[1 / 2], [0]]\<close> the product
  \<open>traces @ weights\<close> is the float column \<open>1 / 2, 3 / 2, 5 / 2\<close>, and the pull returns the
  \<open>int16\<close> column \<open>0, 1, 2\<close>.
\<close>

theorem get_traces_interpolates_bad_columns_counterexample:
  "pull (NumpySegment 0) 0 3 AllChannels example_store_int16 =
     Inr \<lparr>dtype = IntType 16, ncols = 2, arows = [[1, 2], [3, 4], [5, 6]]\<rparr>
   \<and> bad_channel_data example_store_int16 0 = Inr [1]
   \<and> shape example_weights_half = (2, 1)
   \<and> matmul \<lparr>dtype = IntType 16, ncols = 2, arows = [[1, 2], [3, 4], [5, 6]]\<rparr> example_weights_half =
       Inr \<lparr>dtype = FloatType, ncols = 1, arows = [[1 / 2], [3 / 2], [5 / 2]]\<rparr>
   \<and> pull (InterpolateBadChannelsSegment (NumpySegment 0) 0 example_weights_half) 0 3 AllChannels
       example_store_int16 =
       Inr \<lparr>dtype = IntType 16, ncols = 2, arows = [[1, 0], [3, 1], [5, 2]]\<rparr>
   \<and> column \<lparr>dtype = IntType 16, ncols = 2, arows = [[1, 0], [3, 1], [5, 2]]\<rparr> 1 = [0, 1, 2]
   \<and> column \<lparr>dtype = FloatType, ncols = 1, arows = [[1 / 2], [3 / 2], [5 / 2]]\<rparr> 0 = [1 / 2, 3 / 2, 5 / 2]
   \<and> column \<lparr>dtype = IntType 16, ncols = 2, arows = [[1, 0], [3, 1], [5, 2]]\<rparr> 1
       \<noteq> column \<lparr>dtype = FloatType, ncols = 1, arows = [[1 / 2], [3 / 2], [5 / 2]]\<rparr> 0"
proof -
  have c: "cast_to (IntType 16) (1 / 2) = 0" "cast_to (IntType 16) (3 / 2) = 1"
    "cast_to (IntType 16) (5 / 2) = 2"
    by (simp_all add: cast_to_def wrap_signed_def)
  have m: "matmul \<lparr>dtype = IntType 16, ncols = 2, arows = [[1, 2], [3, 4], [5, 6]]\<rparr>
      example_weights_half =
       Inr \<lparr>dtype = FloatType, ncols = 1, arows = [[1 / 2], [3 / 2], [5 / 2]]\<rparr>"
    by (simp add: matmul_def example_weights_half_def column_def dot_def)
  have p0: "pull (NumpySegment 0) 0 3 AllChannels example_store_int16 =
     Inr \<lparr>dtype = IntType 16, ncols = 2, arows = [[1, 2], [3, 4], [5, 6]]\<rparr>"
    by (simp add: pull_def example_store_int16_def)
  have b: "bad_channel_data example_store_int16 0 = Inr [1]"
    by (simp add: bad_channel_data_def index_data_def example_store_int16_def)
  have p1: "pull (InterpolateBadChannelsSegment (NumpySegment 0) 0 example_weights_half) 0 3
       AllChannels example_store_int16 =
       Inr \<lparr>dtype = IntType 16, ncols = 2, arows = [[1, 0], [3, 1], [5, 2]]\<rparr>"
    unfolding pull_interp p0
    by (simp add: m b c setitem_columns_def norm_index_def broadcast_def assign_row_def)
  have s: "shape example_weights_half = (2, 1)"
    by (simp add: shape_def example_weights_half_def)
  show ?thesis unfolding p0 b s m p1 by (simp add: column_def)
qed

text \<open>
  C9. Two pulls with the same arguments, one after the other, return arrays with the same
  values, for every chain of segments; the second pull leaves the array that the first one
  returned as it was, and neither writes to an array that existed before.
\<close>

theorem get_traces_twice_identical:
  assumes wf: "wf_segment st seg"
    and first: "get_traces seg s e cs st = (r1, st1)"
    and second: "get_traces seg s e cs st1 = (r2, st2)"
  shows "pull seg s e cs st1 = pull seg s e cs st
     \<and> (\<forall>v. r1 = Inr v \<longrightarrow> deref st2 v = deref st1 v)
     \<and> index_arrs st2 = index_arrs st
     \<and> index_bufs st2 = index_bufs st
     \<and> (\<forall>a<length (trace_bufs st). trace_bufs st2 ! a = trace_bufs st ! a)"
proof -
  from get_traces_frame [of seg s e cs st] first
  obtain ext1 where e1: "trace_bufs st1 = trace_bufs st @ ext1" and i1: "index_arrs st1 = index_arrs st"
    and b1: "index_bufs st1 = index_bufs st"
    by auto
  from get_traces_frame [of seg s e cs st1] second
  obtain ext2 where e2: "trace_bufs st2 = trace_bufs st1 @ ext2" and i2: "index_arrs st2 = index_arrs st1"
    and b2: "index_bufs st2 = index_bufs st1"
    by auto
  have "pull seg s e cs st1 = pull seg s e cs st"
    using wf e1 i1 b1 by (rule pull_extend)
  moreover have "deref st2 v = deref st1 v" if "r1 = Inr v" for v
  proof -
    obtain a lo hi where v: "v = View a lo hi" by (cases v)
    from get_traces_ref_valid [OF wf] first that v have "a < length (trace_bufs st1)" by simp
    then show ?thesis unfolding v using e2 by (intro deref_extend)
  qed
  moreover have "\<forall>a<length (trace_bufs st). trace_bufs st2 ! a = trace_bufs st ! a"
    using e1 e2 by (simp add: nth_append)
  ultimately show ?thesis using i1 i2 b1 b2 by simp
qed

theorem get_traces_twice_identical_witness:
  "wf_segment example_store (InterpolateBadChannelsSegment (NumpySegment 0) 0 example_weights)
   \<and> pull (InterpolateBadChannelsSegment (NumpySegment 0) 0 example_weights) 0 3 AllChannels
        example_store = Inr \<lparr>dtype = FloatType, ncols = 2, arows = [[1, 1], [3, 3], [5, 5]]\<rparr>
   \<and> pull (InterpolateBadChannelsSegment (NumpySegment 0) 0 example_weights) 0 3 AllChannels
        \<lparr>trace_bufs = [\<lparr>dtype = FloatType, ncols = 2, arows = [[1, 2], [3, 4], [5, 6]]\<rparr>,
                       \<lparr>dtype = FloatType, ncols = 2, arows = [[1, 1], [3, 3], [5, 5]]\<rparr>],
         index_bufs = [[1]],
         index_arrs = [\<lparr>idx_buf = 0, idx_offset = 0, idx_length = 1,
                        idx_writeable = False, idx_base = None\<rparr>]\<rparr> =
      Inr \<lparr>dtype = FloatType, ncols = 2, arows = [[1, 1], [3, 3], [5, 5]]\<rparr>"
proof -
  let ?seg = "InterpolateBadChannelsSegment (NumpySegment 0) 0 example_weights"
  let ?st1 = "\<lparr>trace_bufs = [\<lparr>dtype = FloatType, ncols = 2, arows = [[1, 2], [3, 4], [5, 6]]\<rparr>,
                       \<lparr>dtype = FloatType, ncols = 2, arows = [[1, 1], [3, 3], [5, 5]]\<rparr>],
         index_bufs = [[1]],
         index_arrs = [\<lparr>idx_buf = 0, idx_offset = 0, idx_length = 1,
                        idx_writeable = False, idx_base = None\<rparr>]\<rparr>"
  have second: "get_traces ?seg 0 3 AllChannels ?st1 =
      (fst (get_traces ?seg 0 3 AllChannels ?st1), snd (get_traces ?seg 0 3 AllChannels ?st1))"
    by (rule prod.collapse [symmetric])
  note get_traces_twice_identical [OF example_wf(1) example_get_traces second]
  then have "pull ?seg 0 3 AllChannels ?st1 = pull ?seg 0 3 AllChannels example_store" by blast
  moreover have "pull ?seg 0 3 AllChannels example_store =
      Inr \<lparr>dtype = FloatType, ncols = 2, arows = [[1, 1], [3, 3], [5, 5]]\<rparr>"
    unfolding pull_def example_get_traces by simp
  ultimately show ?thesis using example_wf(1) by simp
qed

text \<open>
  C4. When the constructor is called with \<open>sigma_um = None\<close> and succeeds, the recording
  has a probe, and the \<open>sigma_um\<close> that the stage records and computes its weights with
  is the value of \<open>get_recommended_sigma_um\<close>: a statistical mode of the distances between
  consecutive distinct y-coordinates of the contacts, which exists as soon as there are
  two distinct y-coordinates. When the distinct y-coordinates are \<open>y0, y0 + 20, ...,
  y0 + 20 (n - 1)\<close> with \<open>n \<ge> 2\<close>, it is 20.
\<close>

theorem init_default_sigma_um:
  assumes "init kw rec bad None p st = (Inr stage, st')"
  shows "\<exists>pr a w. rec_probe rec = Some pr \<and> bad = NdArray a
     \<and> get_recommended_sigma_um (contact_positions pr) = Inr (kwargs_sigma_um stage)
     \<and> kw (contact_positions pr) (index_data st (index_arrs st ! a)) (kwargs_sigma_um stage) p = Inr w
     \<and> stage_segments stage =
         map (\<lambda>ps. InterpolateBadChannelsSegment ps a w) (recording_segments rec)
     \<and> (\<forall>m. kwargs_sigma_um stage = Float m \<longrightarrow>
          spec_statistical_mode m (spec_consecutive_gaps (column (contact_positions pr) 1)))
     \<and> (spec_consecutive_gaps (column (contact_positions pr) 1) \<noteq> [] \<longrightarrow>
          kwargs_sigma_um stage \<noteq> NaN)
     \<and> (\<forall>n y0. 2 \<le> n \<and> set (column (contact_positions pr) 1) = (\<lambda>k. y0 + 20 * real k) ` {..<n}
          \<longrightarrow> kwargs_sigma_um stage = Float 20)"
proof -
  from init_success [OF assms] obtain a pr sigma w where
    bad: "bad = NdArray a" and pr: "rec_probe rec = Some pr"
    and sg: "get_recommended_sigma_um (contact_positions pr) = Inr sigma"
    and w: "kw (contact_positions pr) (index_data st (index_arrs st ! a)) sigma p = Inr w"
    and stage: "stage = \<lparr>stage_segments = map (\<lambda>ps. InterpolateBadChannelsSegment ps a w)
                   (recording_segments rec),
                 bad_channel_indexes = a, kwargs_recording = rec, kwargs_p = p,
                 kwargs_sigma_um = sigma\<rparr>"
    by auto
  let ?ys = "column (contact_positions pr) 1"
  from sg have sigma: "sigma = stats_mode (np_diff (np_unique ?ys))"
    by (auto simp: get_recommended_sigma_um_def split: if_splits)
  have gaps: "np_diff (np_unique ?ys) = spec_consecutive_gaps ?ys" by (rule np_diff_unique_gaps)
  have 1: "spec_statistical_mode m (spec_consecutive_gaps ?ys)" if "sigma = Float m" for m
  proof (cases "spec_consecutive_gaps ?ys = []")
    case True
    with that sigma gaps show ?thesis by (simp add: stats_mode_def)
  next
    case False
    from stats_mode_correct [OF this] that sigma gaps show ?thesis by auto
  qed
  have 2: "sigma \<noteq> NaN" if "spec_consecutive_gaps ?ys \<noteq> []"
    using stats_mode_correct [OF that] sigma gaps by auto
  have 3: "sigma = Float 20" if "2 \<le> n" "set ?ys = (\<lambda>k. y0 + 20 * real k) ` {..<n}" for n y0
    using regular_pitch_mode [OF that(2) _ that(1)] sigma by simp
  from bad pr sg w 1 2 3 show ?thesis by (auto simp: stage)
qed

theorem init_default_sigma_um_witness:
  "init example_kriging example_recording (NdArray 0) None (13 / 10) example_store4 =
     (Inr \<lparr>stage_segments =
             [InterpolateBadChannelsSegment (NumpySegment 0) 0
                \<lparr>dtype = FloatType, ncols = 1, arows = [[0], [0], [1], [0]]\<rparr>],
           bad_channel_indexes = 0,
           kwargs_recording = example_recording,
           kwargs_p = 13 / 10,
           kwargs_sigma_um = Float 20\<rparr>,
      \<lparr>trace_bufs = [\<lparr>dtype = FloatType, ncols = 4, arows = [[1, 2, 3, 4]]\<rparr>],
       index_bufs = [[3]],
       index_arrs = [\<lparr>idx_buf = 0, idx_offset = 0, idx_length = 1,
                      idx_writeable = False, idx_base = None\<rparr>]\<rparr>)
   \<and> spec_statistical_mode 20 (spec_consecutive_gaps [0, 20, 40, 60])"
proof -
  from init_default_sigma_um [OF example_init]
  have "spec_statistical_mode 20
      (spec_consecutive_gaps (column \<lparr>dtype = FloatType, ncols = 2, arows = [[0, 0], [0, 20], [0, 40], [0, 60]]\<rparr> 1))"
    by (auto simp: example_recording_def example_probe_def)
  then have "spec_statistical_mode 20 (spec_consecutive_gaps [0, 20, 40, 60])"
    by (simp add: column_def)
  with example_init show ?thesis by simp
qed

text \<open>
  C5. The constructor fails with a \<open>TypeError\<close> when \<open>bad_channel_indexes\<close> is not a
  numpy array; with a \<open>ValueError\<close> when it is one and the recording has no probe; with a
  \<open>NotImplementedError\<close> when it is one and the probe's unit is not \<open>um\<close> (the checks
  run in this order, and the first that fails decides the exception). Whenever one of
  the three conditions holds, the constructor returns no stage and leaves the store as it
  was, whatever the weight function, \<open>sigma_um\<close> and \<open>p\<close> are: the weights are not
  computed, no segment is wrapped and no flag is changed.
\<close>

theorem init_validation_errors:
  "(\<not> is_ndarray bad \<longrightarrow> init kw rec bad sigma_um p st = (Inl TypeError, st))
   \<and> (is_ndarray bad \<and> rec_probe rec = None \<longrightarrow>
        init kw rec bad sigma_um p st = (Inl ValueError, st))
   \<and> (is_ndarray bad \<and> (\<exists>pr. rec_probe rec = Some pr \<and> si_units pr \<noteq> ''um'') \<longrightarrow>
        init kw rec bad sigma_um p st = (Inl NotImplementedError, st))
   \<and> (\<not> is_ndarray bad \<or> rec_probe rec = None
        \<or> (\<exists>pr. rec_probe rec = Some pr \<and> si_units pr \<noteq> ''um'') \<longrightarrow>
        (\<exists>err. err \<in> {TypeError, ValueError, NotImplementedError}
           \<and> (\<forall>kw' sigma_um' p'. init kw' rec bad sigma_um' p' st = (Inl err, st))))"
  by (cases bad; cases "rec_probe rec")
     (auto simp: init_def check_inputs_def is_ndarray_def)

theorem init_validation_errors_witness:
  "init example_kriging example_recording (PyList [3]) None (13 / 10) example_store4 =
     (Inl TypeError, example_store4)
   \<and> init example_kriging (example_recording\<lparr>rec_probe := None\<rparr>) (NdArray 0) None (13 / 10)
       example_store4 = (Inl ValueError, example_store4)
   \<and> init example_kriging
       (example_recording\<lparr>rec_probe := Some (example_probe\<lparr>si_units := ''mm''\<rparr>)\<rparr>)
       (NdArray 0) None (13 / 10) example_store4 = (Inl NotImplementedError, example_store4)"
proof -
  have 1: "\<not> is_ndarray (PyList [3])" and 2: "is_ndarray (NdArray 0)"
    by (simp_all add: is_ndarray_def)
  have 3: "rec_probe (example_recording\<lparr>rec_probe := None\<rparr>) = None" by simp
  have 4: "\<exists>pr. rec_probe (example_recording\<lparr>rec_probe := Some (example_probe\<lparr>si_units := ''mm''\<rparr>)\<rparr>)
      = Some pr \<and> si_units pr \<noteq> ''um''" by simp
  from 1 init_validation_errors [of "PyList [3]" example_kriging example_recording None
      "13 / 10" example_store4]
  have a: "init example_kriging example_recording (PyList [3]) None (13 / 10) example_store4 =
     (Inl TypeError, example_store4)" by blast
  from 2 3 init_validation_errors [of "NdArray 0" example_kriging
      "example_recording\<lparr>rec_probe := None\<rparr>" None "13 / 10" example_store4]
  have b: "init example_kriging (example_recording\<lparr>rec_probe := None\<rparr>) (NdArray 0) None (13 / 10)
       example_store4 = (Inl ValueError, example_store4)" by blast
  from 2 4 init_validation_errors [of "NdArray 0" example_kriging
      "example_recording\<lparr>rec_probe := Some (example_probe\<lparr>si_units := ''mm''\<rparr>)\<rparr>" None
      "13 / 10" example_store4]
  have c: "init example_kriging
       (example_recording\<lparr>rec_probe := Some (example_probe\<lparr>si_units := ''mm''\<rparr>)\<rparr>)
       (NdArray 0) None (13 / 10) example_store4 = (Inl NotImplementedError, example_store4)"
    by blast
  from a b c show ?thesis by simp
qed

text \<open>
  C10. After a successful construction the write flag of the caller's index array object
  is cleared and nothing else in the store has changed; the stage and every one of its
  segments hold a reference to this very object; and an element assignment through it
  raises. After any sequence of operations that leave the object alone (pulls, element
  assignments through it or through arrays on other memory, changes of the flags of
  other array objects) it is still read-only, an assignment through it still raises,
  and a pull through a segment of the stage still uses the indices that the array held
  at construction.

  The flag belongs to the array object, not to its memory, and it can be set again. So
  the indices that the segments hold can change after the construction: by an
  assignment through another array object on the same memory (the base of the array,
  when the caller hands in a view, or a view made of it earlier), and by an assignment
  through the array itself after \<open>setflags(write=True)\<close>, which numpy allows for an array
  that owns its memory.
\<close>

theorem init_locks_bad_channel_indexes:
  assumes "init kw rec (NdArray a) sigma_um p st = (Inr stage, st')"
  shows "st' = setflags_readonly a st
     \<and> a < length (index_arrs st')
     \<and> \<not> idx_writeable (index_arrs st' ! a)
     \<and> index_bufs st' = index_bufs st
     \<and> bad_channel_data st' a = bad_channel_data st a
     \<and> bad_channel_indexes stage = a
     \<and> (\<exists>w idx. bad_channel_data st a = Inr idx
          \<and> stage_segments stage =
              map (\<lambda>parent. InterpolateBadChannelsSegment parent a w) (recording_segments rec)
          \<and> (\<forall>ops parent s e cs. list_all (leaves_alone st' a) ops \<longrightarrow>
                pull (InterpolateBadChannelsSegment parent a w) s e cs (run_operations ops st') =
                  (case pull parent s e AllChannels (run_operations ops st') of
                     Inl err \<Rightarrow> Inl err
                   | Inr t \<Rightarrow>
                       (case matmul t w of
                          Inl err \<Rightarrow> Inl err
                        | Inr product \<Rightarrow> setitem_columns t idx product))))
     \<and> (\<forall>i v. index_setitem a i v st' = Inl ValueError)
     \<and> (\<forall>ops. list_all (leaves_alone st' a) ops \<longrightarrow>
           bad_channel_data (run_operations ops st') a = bad_channel_data st a
           \<and> \<not> idx_writeable (index_arrs (run_operations ops st') ! a)
           \<and> (\<forall>i v. index_setitem a i v (run_operations ops st') = Inl ValueError))"
proof -
  from init_success [OF assms] obtain pr sigma w where
    a: "a < length (index_arrs st)" and buf: "idx_buf (index_arrs st ! a) < length (index_bufs st)"
    and st': "st' = setflags_readonly a st"
    and stage: "stage = \<lparr>stage_segments = map (\<lambda>ps. InterpolateBadChannelsSegment ps a w)
                   (recording_segments rec),
                 bad_channel_indexes = a, kwargs_recording = rec, kwargs_p = p,
                 kwargs_sigma_um = sigma\<rparr>"
    by auto
  define idx where "idx = index_data st (index_arrs st ! a)"
  have bd: "bad_channel_data st a = Inr idx"
    using a buf by (simp add: bad_channel_data_def idx_def)
  have 1: "a < length (index_arrs st')" and 2: "\<not> idx_writeable (index_arrs st' ! a)"
    and ib: "index_bufs st' = index_bufs st"
    and buf': "idx_buf (index_arrs st' ! a) < length (index_bufs st')"
    using a buf by (simp_all add: st' setflags_readonly_def)
  have 3: "bad_channel_data st' a = bad_channel_data st a"
    unfolding st' by (rule bad_channel_data_setflags)
  have 4: "index_setitem a i v st' = Inl ValueError" for i v
    using 1 2 buf' by (simp add: index_setitem_def)
  have 5: "bad_channel_data (run_operations ops st') a = bad_channel_data st a
           \<and> \<not> idx_writeable (index_arrs (run_operations ops st') ! a)
           \<and> (\<forall>i v. index_setitem a i v (run_operations ops st') = Inl ValueError)"
    if la: "list_all (leaves_alone st' a) ops" for ops
  proof -
    from run_operations_locked [OF 1 2 la]
    have n: "index_arrs (run_operations ops st') ! a = index_arrs st' ! a"
      and l: "length (index_arrs (run_operations ops st')) = length (index_arrs st')"
      and lb: "length (index_bufs (run_operations ops st')) = length (index_bufs st')"
      by simp_all
    have "bad_channel_data (run_operations ops st') a = bad_channel_data st a"
      using run_operations_bad_channel_data [OF 1 2 la] 3 by simp
    moreover have "\<not> idx_writeable (index_arrs (run_operations ops st') ! a)"
      using n 2 by simp
    moreover have "index_setitem a i v (run_operations ops st') = Inl ValueError" for i v
      using n l lb 1 2 buf' by (simp add: index_setitem_def)
    ultimately show ?thesis by blast
  qed
  have 6: "pull (InterpolateBadChannelsSegment parent a w) s e cs (run_operations ops st') =
      (case pull parent s e AllChannels (run_operations ops st') of
         Inl err \<Rightarrow> Inl err
       | Inr t \<Rightarrow>
           (case matmul t w of
              Inl err \<Rightarrow> Inl err
            | Inr product \<Rightarrow> setitem_columns t idx product))"
    if la: "list_all (leaves_alone st' a) ops" for ops parent s e cs
    using 5 [OF la] bd by (simp add: pull_interp split: sum.splits)
  have 7: "stage_segments stage =
      map (\<lambda>parent. InterpolateBadChannelsSegment parent a w) (recording_segments rec)"
    by (simp add: stage)
  have 8: "bad_channel_indexes stage = a" by (simp add: stage)
  from bd 6 7 have 9: "\<exists>w idx. bad_channel_data st a = Inr idx
          \<and> stage_segments stage =
              map (\<lambda>parent. InterpolateBadChannelsSegment parent a w) (recording_segments rec)
          \<and> (\<forall>ops parent s e cs. list_all (leaves_alone st' a) ops \<longrightarrow>
                pull (InterpolateBadChannelsSegment parent a w) s e cs (run_operations ops st') =
                  (case pull parent s e AllChannels (run_operations ops st') of
                     Inl err \<Rightarrow> Inl err
                   | Inr t \<Rightarrow>
                       (case matmul t w of
                          Inl err \<Rightarrow> Inl err
                        | Inr product \<Rightarrow> setitem_columns t idx product)))"
    by blast
  from st' 1 2 ib 3 8 9 4 5 show ?thesis by blast
qed

theorem init_locks_bad_channel_indexes_witness:
  "init example_kriging example_recording (NdArray 0) None (13 / 10) example_store4 =
     (Inr \<lparr>stage_segments =
             [InterpolateBadChannelsSegment (NumpySegment 0) 0
                \<lparr>dtype = FloatType, ncols = 1, arows = [[0], [0], [1], [0]]\<rparr>],
           bad_channel_indexes = 0,
           kwargs_recording = example_recording,
           kwargs_p = 13 / 10,
           kwargs_sigma_um = Float 20\<rparr>,
      \<lparr>trace_bufs = [\<lparr>dtype = FloatType, ncols = 4, arows = [[1, 2, 3, 4]]\<rparr>],
       index_bufs = [[3]],
       index_arrs = [\<lparr>idx_buf = 0, idx_offset = 0, idx_length = 1,
                      idx_writeable = False, idx_base = None\<rparr>]\<rparr>)
   \<and> idx_writeable (index_arrs example_store4 ! 0)
   \<and> bad_channel_data example_store4 0 = Inr [3]
   \<and> index_setitem 0 0 2 example_store4 =
       Inr \<lparr>trace_bufs = [\<lparr>dtype = FloatType, ncols = 4, arows = [[1, 2, 3, 4]]\<rparr>],
            index_bufs = [[2]],
            index_arrs = [\<lparr>idx_buf = 0, idx_offset = 0, idx_length = 1,
                           idx_writeable = True, idx_base = None\<rparr>]\<rparr>
   \<and> index_setitem 0 0 2
       \<lparr>trace_bufs = [\<lparr>dtype = FloatType, ncols = 4, arows = [[1, 2, 3, 4]]\<rparr>],
        index_bufs = [[3]],
        index_arrs = [\<lparr>idx_buf = 0, idx_offset = 0, idx_length = 1,
                       idx_writeable = False, idx_base = None\<rparr>]\<rparr> = Inl ValueError
   \<and> list_all
       (leaves_alone
          \<lparr>trace_bufs = [\<lparr>dtype = FloatType, ncols = 4, arows = [[1, 2, 3, 4]]\<rparr>],
           index_bufs = [[3]],
           index_arrs = [\<lparr>idx_buf = 0, idx_offset = 0, idx_length = 1,
                          idx_writeable = False, idx_base = None\<rparr>]\<rparr> 0)
       [SetIndex 0 0 2, Pull (NumpySegment 0) 0 1 AllChannels, SetFlags 0 False, SetIndex 0 0 1]
   \<and> bad_channel_data
       (run_operations
          [SetIndex 0 0 2, Pull (NumpySegment 0) 0 1 AllChannels, SetFlags 0 False, SetIndex 0 0 1]
          \<lparr>trace_bufs = [\<lparr>dtype = FloatType, ncols = 4, arows = [[1, 2, 3, 4]]\<rparr>],
           index_bufs = [[3]],
           index_arrs = [\<lparr>idx_buf = 0, idx_offset = 0, idx_length = 1,
                          idx_writeable = False, idx_base = None\<rparr>]\<rparr>) 0 = Inr [3]"
proof -
  let ?st' = "\<lparr>trace_bufs = [\<lparr>dtype = FloatType, ncols = 4, arows = [[1, 2, 3, 4]]\<rparr>],
       index_bufs = [[3]],
       index_arrs = [\<lparr>idx_buf = 0, idx_offset = 0, idx_length = 1,
                      idx_writeable = False, idx_base = None\<rparr>]\<rparr>"
  let ?ops = "[SetIndex 0 0 2, Pull (NumpySegment 0) 0 1 AllChannels, SetFlags 0 False,
      SetIndex 0 0 1]"
  note th = init_locks_bad_channel_indexes [OF example_init]
  have d: "bad_channel_data example_store4 0 = Inr [3]"
    by (simp add: example_store4_def bad_channel_data_def index_data_def)
  have la: "list_all (leaves_alone ?st' 0) ?ops" by simp
  from th have "index_setitem 0 0 2 ?st' = Inl ValueError"
    by blast
  moreover from th have "list_all (leaves_alone ?st' 0) ?ops \<longrightarrow>
      bad_channel_data (run_operations ?ops ?st') 0 = bad_channel_data example_store4 0"
    by blast
  with la d have "bad_channel_data (run_operations ?ops ?st') 0 = Inr [3]"
    by simp
  moreover have "idx_writeable (index_arrs example_store4 ! 0)"
    "index_setitem 0 0 2 example_store4 =
       Inr \<lparr>trace_bufs = [\<lparr>dtype = FloatType, ncols = 4, arows = [[1, 2, 3, 4]]\<rparr>],
            index_bufs = [[2]],
            index_arrs = [\<lparr>idx_buf = 0, idx_offset = 0, idx_length = 1,
                           idx_writeable = True, idx_base = None\<rparr>]\<rparr>"
    by (simp_all add: example_store4_def index_setitem_def norm_index_def)
  ultimately show ?thesis using example_init la d by simp
qed

text \<open>
  The indices that the segments hold do change after the construction. With
  \<open>base = np.array([3])\<close> and \<open>bad = base[:]\<close> handed to the constructor, \<open>bad\<close> is read-only
  afterwards and \<open>bad[0] = 1\<close> raises, but \<open>base[0] = 1\<close> succeeds: \<open>bad\<close>, still read-only,
  then holds \<open>[1]\<close>, and the next pull overwrites channel 1 where the one before
  overwrote channel 3. With \<open>bad = np.array([3])\<close> itself handed to the constructor,
  \<open>bad.setflags(write=True)\<close> followed by \<open>bad[0] = 1\<close> does the same.
\<close>

theorem init_locks_bad_channel_indexes_counterexample:
  "init example_kriging example_recording (NdArray 0) None (13 / 10) example_store_view =
     (Inr \<lparr>stage_segments = [example_stage_segment],
           bad_channel_indexes = 0,
           kwargs_recording = example_recording,
           kwargs_p = 13 / 10,
           kwargs_sigma_um = Float 20\<rparr>,
      setflags_readonly 0 example_store_view)
   \<and> \<not> idx_writeable (index_arrs (setflags_readonly 0 example_store_view) ! 0)
   \<and> index_setitem 0 0 1 (setflags_readonly 0 example_store_view) = Inl ValueError
   \<and> bad_channel_data (setflags_readonly 0 example_store_view) 0 = Inr [3]
   \<and> pull example_stage_segment 0 1 AllChannels (setflags_readonly 0 example_store_view) =
       Inr \<lparr>dtype = FloatType, ncols = 4, arows = [[1, 2, 3, 3]]\<rparr>
   \<and> \<not> idx_writeable
         (index_arrs (run_operations [SetIndex 1 0 1] (setflags_readonly 0 example_store_view)) ! 0)
   \<and> bad_channel_data
       (run_operations [SetIndex 1 0 1] (setflags_readonly 0 example_store_view)) 0 = Inr [1]
   \<and> pull example_stage_segment 0 1 AllChannels
       (run_operations [SetIndex 1 0 1] (setflags_readonly 0 example_store_view)) =
       Inr \<lparr>dtype = FloatType, ncols = 4, arows = [[1, 3, 3, 4]]\<rparr>
   \<and> init example_kriging example_recording (NdArray 0) None (13 / 10) example_store4 =
     (Inr \<lparr>stage_segments = [example_stage_segment],
           bad_channel_indexes = 0,
           kwargs_recording = example_recording,
           kwargs_p = 13 / 10,
           kwargs_sigma_um = Float 20\<rparr>,
      setflags_readonly 0 example_store4)
   \<and> bad_channel_data (setflags_readonly 0 example_store4) 0 = Inr [3]
   \<and> pull example_stage_segment 0 1 AllChannels (setflags_readonly 0 example_store4) =
       Inr \<lparr>dtype = FloatType, ncols = 4, arows = [[1, 2, 3, 3]]\<rparr>
   \<and> bad_channel_data
       (run_operations [SetFlags 0 True, SetIndex 0 0 1] (setflags_readonly 0 example_store4)) 0 =
       Inr [1]
   \<and> pull example_stage_segment 0 1 AllChannels
       (run_operations [SetFlags 0 True, SetIndex 0 0 1] (setflags_readonly 0 example_store4)) =
       Inr \<lparr>dtype = FloatType, ncols = 4, arows = [[1, 3, 3, 4]]\<rparr>"
proof -
  let ?v = "setflags_readonly 0 example_store_view"
  let ?v1 = "run_operations [SetIndex 1 0 1] ?v"
  let ?o = "setflags_readonly 0 example_store4"
  let ?o1 = "run_operations [SetFlags 0 True, SetIndex 0 0 1] ?o"
  have v: "?v = \<lparr>trace_bufs = [\<lparr>dtype = FloatType, ncols = 4, arows = [[1, 2, 3, 4]]\<rparr>],
      index_bufs = [[3]],
      index_arrs = [\<lparr>idx_buf = 0, idx_offset = 0, idx_length = 1,
                     idx_writeable = False, idx_base = Some 1\<rparr>,
                    \<lparr>idx_buf = 0, idx_offset = 0, idx_length = 1,
                     idx_writeable = True, idx_base = None\<rparr>]\<rparr>"
    by (simp add: setflags_readonly_def example_store_view_def)
  have v1: "?v1 = \<lparr>trace_bufs = [\<lparr>dtype = FloatType, ncols = 4, arows = [[1, 2, 3, 4]]\<rparr>],
      index_bufs = [[1]],
      index_arrs = [\<lparr>idx_buf = 0, idx_offset = 0, idx_length = 1,
                     idx_writeable = False, idx_base = Some 1\<rparr>,
                    \<lparr>idx_buf = 0, idx_offset = 0, idx_length = 1,
                     idx_writeable = True, idx_base = None\<rparr>]\<rparr>"
    unfolding v by (simp add: run_operations_def index_setitem_def norm_index_def)
  have o: "?o = \<lparr>trace_bufs = [\<lparr>dtype = FloatType, ncols = 4, arows = [[1, 2, 3, 4]]\<rparr>],
      index_bufs = [[3]],
      index_arrs = [\<lparr>idx_buf = 0, idx_offset = 0, idx_length = 1,
                     idx_writeable = False, idx_base = None\<rparr>]\<rparr>"
    by (simp add: setflags_readonly_def example_store4_def)
  have o1: "?o1 = \<lparr>trace_bufs = [\<lparr>dtype = FloatType, ncols = 4, arows = [[1, 2, 3, 4]]\<rparr>],
      index_bufs = [[1]],
      index_arrs = [\<lparr>idx_buf = 0, idx_offset = 0, idx_length = 1,
                     idx_writeable = True, idx_base = None\<rparr>]\<rparr>"
    unfolding o
    by (simp add: run_operations_def index_setflags_def may_set_writeable_def index_setitem_def
        norm_index_def)
  have iv: "init example_kriging example_recording (NdArray 0) None (13 / 10) example_store_view =
     (Inr \<lparr>stage_segments = [example_stage_segment], bad_channel_indexes = 0,
           kwargs_recording = example_recording, kwargs_p = 13 / 10,
           kwargs_sigma_um = Float 20\<rparr>, ?v)"
    by (rule example_init_any) (simp_all add: example_store_view_def)
  have io: "init example_kriging example_recording (NdArray 0) None (13 / 10) example_store4 =
     (Inr \<lparr>stage_segments = [example_stage_segment], bad_channel_indexes = 0,
           kwargs_recording = example_recording, kwargs_p = 13 / 10,
           kwargs_sigma_um = Float 20\<rparr>, ?o)"
    by (rule example_init_any) (simp_all add: example_store4_def)
  have bv: "bad_channel_data ?v 0 = Inr [3]" "bad_channel_data ?v1 0 = Inr [1]"
    "bad_channel_data ?o 0 = Inr [3]" "bad_channel_data ?o1 0 = Inr [1]"
    by (simp_all only: v1 o1) (simp_all add: v o bad_channel_data_def index_data_def)
  let ?b = "[\<lparr>dtype = FloatType, ncols = 4, arows = [[1, 2, 3, 4]]\<rparr>]"
  have t: "trace_bufs ?v = ?b" "trace_bufs ?v1 = ?b" "trace_bufs ?o = ?b" "trace_bufs ?o1 = ?b"
    by (simp_all only: v1 o1) (simp_all add: v o)
  have pv: "pull example_stage_segment 0 1 AllChannels ?v =
      Inr \<lparr>dtype = FloatType, ncols = 4, arows = [[1, 2, 3, 3]]\<rparr>"
    using example_stage_pull [OF t(1) bv(1)] by simp
  have pv1: "pull example_stage_segment 0 1 AllChannels ?v1 =
      Inr \<lparr>dtype = FloatType, ncols = 4, arows = [[1, 3, 3, 4]]\<rparr>"
    using example_stage_pull [OF t(2) bv(2)] by simp
  have po: "pull example_stage_segment 0 1 AllChannels ?o =
      Inr \<lparr>dtype = FloatType, ncols = 4, arows = [[1, 2, 3, 3]]\<rparr>"
    using example_stage_pull [OF t(3) bv(3)] by simp
  have po1: "pull example_stage_segment 0 1 AllChannels ?o1 =
      Inr \<lparr>dtype = FloatType, ncols = 4, arows = [[1, 3, 3, 4]]\<rparr>"
    using example_stage_pull [OF t(4) bv(4)] by simp
  have f: "\<not> idx_writeable (index_arrs ?v ! 0)" "\<not> idx_writeable (index_arrs ?v1 ! 0)"
    by (simp_all only: v1) (simp_all add: v)
  have s: "index_setitem 0 0 1 ?v = Inl ValueError"
    unfolding v by (simp add: index_setitem_def)
  from iv f(1) s bv(1) pv f(2) bv(2) pv1 io bv(3) po bv(4) po1 show ?thesis by blast
qed

text \<open>
  C3 (on the kernel as the specification describes it). When the bad-channel indices are
  in bounds and at least one channel is good, the weight matrix has shape
  \<open>(channels, bad channels)\<close>; for every bad channel the weights of the good channels sum
  to 1, exactly and hence within \<open>1e-6\<close>; each of them is the kernel
  \<open>exp(-(dist / sigma_um) ^ p)\<close> divided by the sum of the kernel over the good channels;
  and the rows of the bad channels are zero.
\<close>

theorem kriging_weights_normalised:
  assumes inb: "norm_indices (length (arows positions)) idx = Some bad"
    and good: "good_channels (length (arows positions)) bad \<noteq> []"
  shows "\<exists>w. get_kriging_bad_channel_weights positions idx sigma_um p = Inr w
     \<and> shape w = (length (arows positions), length idx)
     \<and> rectangular w
     \<and> (\<forall>k<length bad.
          \<bar>sum_list (map (\<lambda>g. arows w ! g ! k) (good_channels (length (arows positions)) bad)) - 1\<bar>
            \<le> 1 / 10 ^ 6
          \<and> sum_list (map (\<lambda>g. arows w ! g ! k) (good_channels (length (arows positions)) bad)) = 1
          \<and> (\<forall>g\<in>set (good_channels (length (arows positions)) bad).
                arows w ! g ! k =
                  kernel_weight sigma_um p
                    (euclidean_distance (arows positions ! (bad ! k)) (arows positions ! g))
                  / sum_list (map (\<lambda>g'. kernel_weight sigma_um p
                        (euclidean_distance (arows positions ! (bad ! k)) (arows positions ! g')))
                      (good_channels (length (arows positions)) bad))))
     \<and> (\<forall>c\<in>set bad. arows w ! c = replicate (length bad) 0)"
proof -
  let ?n = "length (arows positions)"
  let ?good = "good_channels ?n bad"
  let ?raw = "raw_weight positions sigma_um p"
  define w where "w = \<lparr>dtype = FloatType, ncols = length bad,
            arows = map (\<lambda>c. map (\<lambda>b. if c \<in> set bad then 0
                               else ?raw b c / sum_list (map (?raw b) ?good)) bad) [0..<?n]\<rparr>"
  have w: "get_kriging_bad_channel_weights positions idx sigma_um p = Inr w"
    by (simp add: get_kriging_bad_channel_weights_def inb Let_def w_def)
  have lb: "length bad = length idx" using inb by (rule norm_indices_length)
  have sh: "shape w = (?n, length idx)" by (simp add: shape_def lb w_def)
  have re: "rectangular w" by (simp add: rectangular_def list_all_iff w_def)
  have gd: "g < ?n \<and> g \<notin> set bad" if "g \<in> set ?good" for g
    using that by (auto simp: good_channels_def)
  have entry: "arows w ! g ! k = ?raw (bad ! k) g / sum_list (map (?raw (bad ! k)) ?good)"
    if "g \<in> set ?good" "k < length bad" for g k
    using gd [OF that(1)] that(2) by (simp add: w_def)
  have tot: "sum_list (map (?raw b) ?good) \<noteq> 0" for b
    using sum_list_pos_nonempty [OF good, of "?raw b"] raw_weight_pos by (simp add: less_imp_neq)
  have one: "sum_list (map (\<lambda>g. arows w ! g ! k) ?good) = 1" if k: "k < length bad" for k
  proof -
    have "sum_list (map (\<lambda>g. arows w ! g ! k) ?good) =
        sum_list (map (\<lambda>g. ?raw (bad ! k) g / sum_list (map (?raw (bad ! k)) ?good)) ?good)"
      by (rule arg_cong [where f = sum_list], rule map_cong [OF refl], rule entry [OF _ k])
    also have "\<dots> = 1" by (rule sum_list_normalised [OF tot])
    finally show ?thesis .
  qed
  have zero: "arows w ! c = replicate (length bad) 0" if "c \<in> set bad" for c
  proof -
    from norm_indices_bound [OF inb that] have "c < ?n" .
    with that show ?thesis by (simp add: map_replicate_const w_def)
  qed
  from w sh re one entry zero show ?thesis
    unfolding raw_weight_def by (intro exI [of _ w]) simp
qed

theorem kriging_weights_normalised_witness:
  "norm_indices 4 [3] = Some [3]
   \<and> good_channels 4 [3] = [0, 1, 2]
   \<and> (\<exists>w. get_kriging_bad_channel_weights
            \<lparr>dtype = FloatType, ncols = 2, arows = [[0, 0], [0, 20], [0, 40], [0, 60]]\<rparr> [3] 20 (13 / 10) = Inr w
        \<and> shape w = (4, 1)
        \<and> arows w ! 0 ! 0 + arows w ! 1 ! 0 + arows w ! 2 ! 0 = 1
        \<and> arows w ! 3 = [0])"
proof -
  let ?pos = "\<lparr>dtype = FloatType, ncols = 2, arows = [[0, 0], [0, 20], [0, 40], [0, 60]]\<rparr> :: array2"
  have n: "norm_indices (length (arows ?pos)) [3] = Some [3]" by (simp add: norm_index_def)
  have g: "good_channels 4 [3] = [0, 1, 2]" by (simp add: good_channels_def upt_rec)
  have l: "length (arows ?pos) = 4" by simp
  have g': "good_channels (length (arows ?pos)) [3] \<noteq> []" unfolding l g by simp
  from kriging_weights_normalised [OF n g', of 20 "13 / 10"] obtain w where
    "get_kriging_bad_channel_weights ?pos [3] 20 (13 / 10) = Inr w"
    "shape w = (length (arows ?pos), length [3::int])"
    "\<forall>k<length [3::nat].
        sum_list (map (\<lambda>g. arows w ! g ! k) (good_channels (length (arows ?pos)) [3])) = 1"
    "\<forall>c\<in>set [3::nat]. arows w ! c = replicate (length [3::nat]) 0"
    by blast
  then have "get_kriging_bad_channel_weights ?pos [3] 20 (13 / 10) = Inr w
        \<and> shape w = (4, 1)
        \<and> arows w ! 0 ! 0 + arows w ! 1 ! 0 + arows w ! 2 ! 0 = 1
        \<and> arows w ! 3 = [0]"
    unfolding l g by simp
  moreover have "norm_indices 4 [3] = Some [3]" by (simp add: norm_index_def)
  ultimately show ?thesis using g by blast
qed

text \<open>
  C7 (on the engine as the specification describes it). When \<open>compute\<close> of an extension
  \<open>E\<close> succeeds and \<open>d\<close> is one of its declared dependencies, then afterwards one of the
  alternatives of \<open>d\<close> is cached; if \<open>d\<close> is a single name that was not cached before, it
  is cached afterwards with its default parameters; every result other than \<open>E\<close> that
  the call added has default parameters, and every result other than \<open>E\<close> that was cached
  before is as it was. Resolving the one dependency \<open>d\<close> changes nothing when one of its
  alternatives is cached, and otherwise leaves its first alternative cached with default
  parameters. And after the test suite's \<open>_prepare_sorting_analyzer\<close> for a class, the
  first alternative of each of its dependencies is cached with default parameters.
\<close>

theorem compute_resolves_dependencies:
  "(compute reg E ps an = Inr an' \<and> map_of reg E = Some cls \<and> d \<in> set (depend_on cls) \<longrightarrow>
      list_ex (cached an') (split_bar d)
      \<and> (CHR ''|'' \<notin> set d \<and> \<not> cached an d \<longrightarrow> cached an' d \<and> with_default_params reg d an')
      \<and> (\<forall>n. n \<noteq> E \<and> \<not> cached an n \<and> cached an' n \<longrightarrow> with_default_params reg n an')
      \<and> (\<forall>n. n \<noteq> E \<and> cached an n \<longrightarrow> extensions an' n = extensions an n))
   \<and> (ensure_dependencies reg visiting [d] a0 = Inr a1 \<longrightarrow>
        (if list_ex (cached a0) (split_bar d) then a1 = a0
         else cached a1 (first_alternative d) \<and> with_default_params reg (first_alternative d) a1))
   \<and> (prepare_sorting_analyzer reg units spks cls = Inr a2 \<and> d \<in> set (depend_on cls) \<longrightarrow>
        cached a2 (first_alternative d) \<and> with_default_params reg (first_alternative d) a2)"
proof -
  have 1: "list_ex (cached an') (split_bar d)
      \<and> (CHR ''|'' \<notin> set d \<and> \<not> cached an d \<longrightarrow> cached an' d \<and> with_default_params reg d an')
      \<and> (\<forall>n. n \<noteq> E \<and> \<not> cached an n \<and> cached an' n \<longrightarrow> with_default_params reg n an')
      \<and> (\<forall>n. n \<noteq> E \<and> cached an n \<longrightarrow> extensions an' n = extensions an n)"
    if "compute reg E ps an = Inr an'" "map_of reg E = Some cls" "d \<in> set (depend_on cls)"
    using compute_dependency_present [OF that] by (intro conjI)
  have 2: "if list_ex (cached a0) (split_bar d) then a1 = a0
         else cached a1 (first_alternative d) \<and> with_default_params reg (first_alternative d) a1"
    if "ensure_dependencies reg visiting [d] a0 = Inr a1"
    using that by (rule ensure_one_dependency)
  have 3: "cached a2 (first_alternative d) \<and> with_default_params reg (first_alternative d) a2"
    if "prepare_sorting_analyzer reg units spks cls = Inr a2" "d \<in> set (depend_on cls)"
    using that by (rule prepare_sorting_analyzer_default)
  from 1 2 3 show ?thesis by blast
qed

theorem compute_resolves_dependencies_witness:
  "(\<exists>an'. compute example_registry ''templates'' None
            (get_sorting_analyzer [4, 5, 6] example_spikes) = Inr an'
        \<and> list_ex (cached an') [''waveforms'', ''random_spikes''])
   \<and> (\<exists>a1. ensure_dependencies example_registry [] [''waveforms|random_spikes'']
            (get_sorting_analyzer [4, 5, 6] example_spikes) = Inr a1
        \<and> cached a1 ''waveforms'' \<and> with_default_params example_registry ''waveforms'' a1)
   \<and> (\<exists>a2. prepare_sorting_analyzer example_registry [4, 5, 6] example_spikes
            example_templates_class = Inr a2
        \<and> cached a2 ''waveforms'' \<and> with_default_params example_registry ''waveforms'' a2)"
proof -
  let ?d = "''waveforms|random_spikes''"
  let ?an = "get_sorting_analyzer [4, 5, 6] example_spikes"
  have d: "?d \<in> set (depend_on example_templates_class)"
    by (simp add: example_templates_class_def)
  have sp: "split_bar ?d = [''waveforms'', ''random_spikes'']" by simp
  have fa: "first_alternative ?d = ''waveforms''" by (simp add: first_alternative_def)
  have nc: "\<not> list_ex (cached ?an) (split_bar ?d)"
    unfolding sp by (simp add: cached_def get_sorting_analyzer_def)
  obtain an' where c: "compute example_registry ''templates'' None ?an = Inr an'"
    by (auto simp: compute_def compute_extension.simps example_registry_def store_extension_def
      cached_def get_sorting_analyzer_def first_alternative_def)
  from example_ensure obtain a1 where
    e: "ensure_dependencies example_registry [] [?d] ?an = Inr a1" by blast
  obtain a2 where p: "prepare_sorting_analyzer example_registry [4, 5, 6] example_spikes
      example_templates_class = Inr a2"
    by (auto simp: prepare_sorting_analyzer_def compute_def compute_extension.simps
      example_registry_def store_extension_def example_templates_class_def
      cached_def get_sorting_analyzer_def first_alternative_def)
  note th = compute_resolves_dependencies [where reg = example_registry and E = "''templates''" and ps = None and an = ?an
      and an' = an' and cls = example_templates_class and d = ?d and visiting = "[]"
      and ?a0.0 = ?an and ?a1.0 = a1 and units = "[4, 5, 6]" and spks = example_spikes
      and ?a2.0 = a2]
  from th c example_map_of d have 1: "list_ex (cached an') [''waveforms'', ''random_spikes'']"
    unfolding sp by blast
  from th e nc have 2: "cached a1 ''waveforms'' \<and> with_default_params example_registry ''waveforms'' a1"
    unfolding fa by presburger
  from th p d have 3: "cached a2 ''waveforms'' \<and> with_default_params example_registry ''waveforms'' a2"
    unfolding fa by blast
  from c 1 e 2 p 3 show ?thesis by blast
qed

text \<open>
  C8 (on the Analyzer as the specification describes it). For a list of unit ids of the
  Analyzer, \<open>select_units\<close> returns a new Analyzer whose unit ids are that list, in the
  order given; this holds for \<open>unit_ids[::2]\<close>, which is what the test suite asserts.
  Applied to all unit ids of a well-formed Analyzer it returns an Analyzer equal to the
  original: the same unit ids, spikes and cached extension arrays. \<open>select_units\<close> is a
  function of the Analyzer and returns a new value, so the original is as it was.
\<close>

theorem select_units_projection:
  "(list_all (\<lambda>u. u \<in> set (unit_ids an)) some_unit_ids \<longrightarrow>
      (\<exists>an'. select_units an some_unit_ids = Some an' \<and> unit_ids an' = some_unit_ids))
   \<and> (\<exists>sliced. select_units an (every_second (unit_ids an)) = Some sliced
        \<and> unit_ids sliced = every_second (unit_ids an))
   \<and> (wf_analyzer an \<longrightarrow> select_units an (unit_ids an) = Some an)"
proof -
  have 1: "\<exists>an'. select_units an some_unit_ids = Some an' \<and> unit_ids an' = some_unit_ids"
    if "list_all (\<lambda>u. u \<in> set (unit_ids an)) some_unit_ids" for some_unit_ids
    using that by (simp add: select_units_def)
  have "list_all (\<lambda>u. u \<in> set (unit_ids an)) (every_second (unit_ids an))"
    using every_second_subset [of "unit_ids an"] by (auto simp: list_all_iff)
  from 1 [OF this] have 2: "\<exists>sliced. select_units an (every_second (unit_ids an)) = Some sliced
        \<and> unit_ids sliced = every_second (unit_ids an)" .
  have 3: "select_units an (unit_ids an) = Some an" if wf: "wf_analyzer an"
  proof -
    from wf have d: "distinct (unit_ids an)"
      and s: "list_all (\<lambda>sp. unit_index sp < length (unit_ids an)) (spikes an)"
      and f: "\<And>name r. extensions an name = Some r \<Longrightarrow>
            list_all (\<lambda>(f, fld). wf_field an fld) (ext_fields r)"
      by (auto simp: wf_analyzer_def)
    have e: "(\<lambda>name. map_option (select_result (unit_ids an) (unit_ids an) (spikes an))
                             (extensions an name)) = extensions an"
    proof
      fix name
      show "map_option (select_result (unit_ids an) (unit_ids an) (spikes an))
          (extensions an name) = extensions an name"
        by (cases "extensions an name") (simp_all add: select_result_all [OF d s f])
    qed
    have "list_all (\<lambda>u. u \<in> set (unit_ids an)) (unit_ids an)" by (simp add: list_all_iff)
    then show ?thesis
      by (simp add: select_units_def select_spikes_all [OF d s] e)
  qed
  from 1 2 3 show ?thesis by blast
qed

theorem select_units_projection_witness:
  "list_all (\<lambda>u. u \<in> set (unit_ids example_analyzer)) [6, 4]
   \<and> select_units example_analyzer [6, 4] =
     Some \<lparr>unit_ids = [6, 4],
           spikes = [\<lparr>sample_index = 10, unit_index = 1, segment_index = 0\<rparr>,
                     \<lparr>sample_index = 25, unit_index = 0, segment_index = 0\<rparr>],
           extensions = [''templates'' \<mapsto>
             \<lparr>ext_params = [(''ms_before'', 1)], ext_fields = [(''average'', PerUnit [3, 1])]\<rparr>]\<rparr>
   \<and> wf_analyzer example_analyzer
   \<and> select_units example_analyzer [4, 5, 6] = Some example_analyzer"
proof -
  have u: "unit_ids example_analyzer = [4, 5, 6]" by (simp add: example_analyzer_def)
  have l: "list_all (\<lambda>u. u \<in> set (unit_ids example_analyzer)) [6, 4]" by (simp add: u)
  from select_units_projection [of example_analyzer "[6, 4]"] example_analyzer_wf
  have "select_units example_analyzer (unit_ids example_analyzer) = Some example_analyzer" by blast
  then have "select_units example_analyzer [4, 5, 6] = Some example_analyzer" by (simp add: u)
  with l example_select example_analyzer_wf show ?thesis by blast
qed

end
